theory Spec2Isabelle
  imports Main "HOL-Library.Char_ord" "HOL-Library.List_Lexorder" "HOL-Library.Product_Lexorder"
    "HOL-Library.Multiset" "HOL-Library.AList"
begin

section \<open>Text records: properties and parameters (vcardutil.py)\<close>

text \<open>
  Python strings are modelled as \<^typ>\<open>string\<close>; the order on strings is the lexicographic
  order on character codes, as Python's \<open><\<close> on \<open>str\<close>.  \<open>None\<close> in an optional field is
  \<^const>\<open>None\<close>.
\<close>

record Param =
  param_name :: string
  param_value :: string

record Prop =
  prop_group :: "string option"
  prop_name :: string
  prop_params :: "Param list"
  prop_value :: string

datatype comp = CompStr string | CompSet "string list"

text \<open>
  The classes derived from \<open>Value\<close>.  A plain \<open>str\<close> expectation is \<open>StrValue\<close>;
  \<open>AnyValue\<close> stands for the class object and for its instances alike (both always match).
  \<open>TextJSONValue\<close> and \<open>TimestampValue\<close> decide through \<open>json.loads\<close>/\<open>json.dumps\<close> and
  \<open>datetime.strptime\<close>; their \<open>match\<close> catches the library's exceptions and returns a
  boolean, so each is carried as the predicate that its \<open>match\<close> method computes.
\<close>

datatype vspec =
    AnyValue
  | StrValue string
  | NoCaseValue string
  | OneOfValue "vspec list"
  | MaybeQuoted string
  | MaybeEscaped string
  | ComponentsValue "comp list"
  | TextJSONValue "string \<Rightarrow> bool"
  | TimestampValue "string \<Rightarrow> bool"

record ParamMatch =
  pmatch_name :: string
  pmatch_value :: vspec
  pmatch_mandatory :: bool

record GroupMatch =
  group_id :: string

record AltIdMatch =
  altid_id :: string
  altid_mandatory :: bool

datatype group_spec = GroupStr string | GroupRef GroupMatch

text \<open>\<open>params = None\<close> and \<open>params = []\<close> behave alike (\<open>if self.params\<close>); both are \<open>[]\<close>.\<close>

record PropMatch =
  pm_name :: string
  pm_value :: vspec
  pm_params :: "ParamMatch list"
  pm_mandatory :: bool
  pm_alt_id :: "AltIdMatch option"
  pm_group :: "group_spec option"

record PropMatchError =
  err_prop :: "Prop option"
  err_candidates :: "PropMatch list option"

text \<open>
  A Card is a JSON-like tree.  A Python \<open>dict\<close> is an association list in insertion order
  (its keys are distinct), \<open>None\<close> is \<open>JNull\<close>.  Floating-point numbers are not modelled.
\<close>

datatype json =
    JNull
  | JBool bool
  | JInt int
  | JStr string
  | JList "json list"
  | JObj "(string \<times> json) list"

text \<open>\<open>JSPropDiff\<close>: a side that is not given keeps its default \<open>None\<close>.\<close>

record JSPropDiff =
  diff_path :: string
  a_val :: json
  b_val :: json

text \<open>
  The exceptions that the modelled code raises.  The arguments of exceptions are kept only
  where a caller reads them.
\<close>

datatype exn =
    ParseError string
  | IndexError
  | KeyError
  | ValueError
  | TypeError
  | AttributeError
  | VCardMatchError "PropMatchError list"
  | MatchJSCardError "JSPropDiff list"

subsection \<open>Characters and regular expressions\<close>

definition CR :: char where "CR = CHR 0x0D"
definition LF :: char where "LF = CHR 0x0A"
definition TAB :: char where "TAB = CHR 0x09"
definition BSL :: char where "BSL = CHR 0x5C"
definition DQ :: char where "DQ = CHR 0x22"

text \<open>The character class \<open>[A-Za-z0-9-]\<close>.\<close>

definition namechar :: "char \<Rightarrow> bool" where
  "namechar c \<longleftrightarrow>
     c \<in> set ''ABCDEFGHIJKLMNOPQRSTUVWXYZabcdefghijklmnopqrstuvwxyz0123456789-''"

text \<open>\<open>str.upper\<close> on ASCII text: the letters \<open>a\<close> to \<open>z\<close> are mapped, all else is kept.\<close>

definition upper_char :: "char \<Rightarrow> char" where
  "upper_char c =
     (case map_of (zip ''abcdefghijklmnopqrstuvwxyz'' ''ABCDEFGHIJKLMNOPQRSTUVWXYZ'') c of
        Some u \<Rightarrow> u | None \<Rightarrow> c)"

definition upper :: "string \<Rightarrow> string" where
  "upper s = map upper_char s"

text \<open>
  \<open>".*?(?<!\\)"\<close> after the opening quote: the number of characters up to and including
  the first double quote that is not preceded by a backslash, with no line feed before it
  (\<open>.\<close> does not match a line feed).  \<open>prev\<close> is the character before the current one.
\<close>

fun close_quote :: "char \<Rightarrow> string \<Rightarrow> nat option" where
  "close_quote prev [] = None"
| "close_quote prev (c # cs) =
     (if c = DQ \<and> prev \<noteq> BSL then Some 1
      else if c = LF then None
      else map_option Suc (close_quote c cs))"

text \<open>
  Group 2 of the parameter pattern, \<open>((".*?(?<!\\)")|[^";:]*)\<close>: the length of the match
  at the start of \<open>s\<close>.  The second alternative always matches (possibly the empty string).
\<close>

definition match_param_value :: "string \<Rightarrow> nat" where
  "match_param_value s =
     (case s of
        [] \<Rightarrow> 0
      | c # cs \<Rightarrow>
          (case (if c = DQ then close_quote c cs else None) of
             Some n \<Rightarrow> Suc n
           | None \<Rightarrow> length (takeWhile (\<lambda>x. x \<notin> set [DQ, CHR '';'', CHR '':'']) s)))"

text \<open>
  \<open>re.match(r';([A-Za-z0-9-]+)=((".*?(?<!\\)")|[^";:]*)', s)\<close>: group 1, group 2 and
  \<open>m.end()\<close>, or \<open>None\<close>.
\<close>

definition match_param :: "string \<Rightarrow> (string \<times> string \<times> nat) option" where
  "match_param s =
     (case s of
        [] \<Rightarrow> None
      | c # r \<Rightarrow>
          if c \<noteq> CHR '';'' then None
          else let n = length (takeWhile namechar r) in
            if n = 0 \<or> n \<ge> length r \<or> r ! n \<noteq> CHR ''='' then None
            else let v = drop (Suc n) r; k = match_param_value v
                 in Some (take n r, take k v, Suc (Suc n) + k))"

lemma match_param_end: "match_param s = Some (nm, v, e) \<Longrightarrow> 0 < e"
  by (auto simp: match_param_def Let_def split: list.splits if_splits)

subsection \<open>Prop.fromstr and parse\<close>

text \<open>
  The parameter loop \<open>while s[0] == ";"\<close>.  Indexing the empty string raises
  \<open>IndexError\<close>; a \<open>;\<close> that the parameter pattern does not match raises \<open>ParseError\<close>.
\<close>

function parse_params :: "string \<Rightarrow> Param list \<Rightarrow> exn + (Param list \<times> string)" where
  "parse_params s params =
     (case s of
        [] \<Rightarrow> Inl IndexError
      | c # _ \<Rightarrow>
          if c = CHR '';'' then
            (case match_param s of
               None \<Rightarrow> Inl (ParseError s)
             | Some (nm, v, e) \<Rightarrow>
                 parse_params (drop e s)
                   (params @ [\<lparr>param_name = upper nm, param_value = v\<rparr>]))
          else Inr (params, s))"
  by pat_completeness auto
termination
  by (relation "measure (\<lambda>(s, _). length s)") (auto dest: match_param_end)

definition parse_tail :: "string option \<Rightarrow> string \<Rightarrow> string \<Rightarrow> exn + Prop" where
  "parse_tail grp nm s =
     (case parse_params s [] of
        Inl e \<Rightarrow> Inl e
      | Inr (params, s') \<Rightarrow>
          (case s' of
             [] \<Rightarrow> Inl IndexError
           | c # v \<Rightarrow>
               if c \<noteq> CHR '':'' then Inl (ParseError s')
               else Inr \<lparr>prop_group = grp, prop_name = nm, prop_params = params,
                         prop_value = v\<rparr>))"

definition fromstr :: "string \<Rightarrow> exn + Prop" where
  "fromstr s =
     (let n = length (takeWhile namechar s) in
      if n = 0 then Inl (ParseError s)
      else if n \<ge> length s then Inl IndexError
      else if s ! n = CHR ''.'' then
        (let s1 = drop (Suc n) s; n1 = length (takeWhile namechar s1) in
         if n1 = 0 then Inl (ParseError s1)
         else parse_tail (Some (take n s)) (upper (take n1 s1)) (drop n1 s1))
      else parse_tail None (upper (take n s)) (drop n s))"

text \<open>\<open>re.sub(r"\r\n[ \t]", "", s)\<close>: line unfolding.\<close>

fun unfold_lines :: "string \<Rightarrow> string" where
  "unfold_lines (a # b # c # s) =
     (if a = CR \<and> b = LF \<and> (c = CHR '' '' \<or> c = TAB) then unfold_lines s
      else a # unfold_lines (b # c # s))"
| "unfold_lines s = s"

text \<open>\<open>str.split("\r\n")\<close>; \<open>cur\<close> is the piece collected so far.\<close>

fun split_crlf :: "string \<Rightarrow> string \<Rightarrow> string list" where
  "split_crlf cur (a # b # s) =
     (if a = CR \<and> b = LF then cur # split_crlf [] s
      else split_crlf (cur @ [a]) (b # s))"
| "split_crlf cur s = [cur @ s]"

fun fromstr_all :: "string list \<Rightarrow> exn + Prop list" where
  "fromstr_all [] = Inr []"
| "fromstr_all (l # ls) =
     (case fromstr l of
        Inl e \<Rightarrow> Inl e
      | Inr p \<Rightarrow> (case fromstr_all ls of Inl e \<Rightarrow> Inl e | Inr ps \<Rightarrow> Inr (p # ps)))"

definition parse :: "string \<Rightarrow> exn + Prop list" where
  "parse s =
     (let lines = split_crlf [] (unfold_lines s);
          lines' = (if lines \<noteq> [] \<and> last lines = [] then butlast lines else lines)
      in fromstr_all lines')"

definition crlf :: string where "crlf = [CR, LF]"

subsection \<open>normalize_vcard\<close>

text \<open>
  Python's \<open>list.sort\<close> is stable, as \<^const>\<open>sort_key\<close> is; sorting by value and then by name
  is the source's way to sort by (name, value).
\<close>

definition sort_params :: "Prop \<Rightarrow> Prop" where
  "sort_params p = p\<lparr>prop_params := sort_key param_name (sort_key param_value (prop_params p))\<rparr>"

definition sort_props :: "Prop list \<Rightarrow> Prop list" where
  "sort_props ps = sort_key prop_name (sort_key prop_value ps)"

definition normalize_vcard :: "Prop list \<Rightarrow> Prop list" where
  "normalize_vcard vprops =
     (if length vprops > 2 \<and> prop_name (hd vprops) = ''BEGIN'' \<and> prop_name (last vprops) = ''END''
      then [hd vprops] @ sort_props (map sort_params (butlast (tl vprops))) @ [last vprops]
      else sort_props (map sort_params vprops))"

subsection \<open>Value expectations\<close>

text \<open>
  \<open>re.split(r"(?<!\\)SEP", s)\<close> for a one-character separator: split at every \<open>SEP\<close> that is
  not preceded by a backslash.  \<open>prev\<close> is the character before the current one (\<open>None\<close> at
  the start), \<open>cur\<close> the piece collected so far.
\<close>

fun split_unescaped :: "char \<Rightarrow> char option \<Rightarrow> string \<Rightarrow> string \<Rightarrow> string list" where
  "split_unescaped sep prev cur [] = [cur]"
| "split_unescaped sep prev cur (c # s) =
     (if c = sep \<and> prev \<noteq> Some BSL then cur # split_unescaped sep (Some c) [] s
      else split_unescaped sep (Some c) (cur @ [c]) s)"

text \<open>\<open>re.sub(r"\\,", ",", s)\<close>.\<close>

fun unescape_commas :: "string \<Rightarrow> string" where
  "unescape_commas (a # b # s) =
     (if a = BSL \<and> b = CHR '','' then CHR '','' # unescape_commas s
      else a # unescape_commas (b # s))"
| "unescape_commas s = s"

text \<open>One slot of \<open>ComponentsValue.match\<close>: the body of its \<open>for\<close> loop.\<close>

fun comp_ok :: "comp \<Rightarrow> string \<Rightarrow> bool" where
  "comp_ok (CompStr want_subcomp) subcomp = (want_subcomp = subcomp)"
| "comp_ok (CompSet want_set) subcomp =
     (set (split_unescaped CHR '','' None [] subcomp) = set want_set)"

definition ComponentsValue_match :: "comp list \<Rightarrow> string \<Rightarrow> bool" where
  "ComponentsValue_match comps val =
     (let subcomps = split_unescaped CHR '';'' None [] val in
      if length comps \<noteq> length subcomps then False
      else list_all (\<lambda>(want_subcomp, subcomp). comp_ok want_subcomp subcomp) (zip comps subcomps))"

text \<open>\<open>match_value\<close>, with the \<open>match\<close> method of each class inlined.\<close>

fun match_value :: "vspec \<Rightarrow> string \<Rightarrow> bool" where
  "match_value AnyValue s = True"
| "match_value (StrValue want) s = (want = s)"
| "match_value (NoCaseValue val) s = (upper val = upper s)"
| "match_value (OneOfValue vals) s = list_ex (\<lambda>v. match_value v s) vals"
| "match_value (MaybeQuoted val) s = (s \<in> set [val, [DQ] @ val @ [DQ]])"
| "match_value (MaybeEscaped val) s = (val = s \<or> val = unescape_commas s)"
| "match_value (ComponentsValue comps) s = ComponentsValue_match comps s"
| "match_value (TextJSONValue matches) s = matches s"
| "match_value (TimestampValue matches) s = matches s"

subsection \<open>PropMatch.match\<close>

type_synonym altid_table = "(string \<times> string) list"
type_synonym group_table = "(string \<times> string option) list"
type_synonym byname = "(string \<times> ParamMatch list) list"

text \<open>\<open>param_matches_byname[param_match.name].append(param_match)\<close> on a \<open>defaultdict(list)\<close>.\<close>

definition byname_append :: "byname \<Rightarrow> ParamMatch \<Rightarrow> byname" where
  "byname_append d m =
     AList.update (pmatch_name m)
       ((case map_of d (pmatch_name m) of None \<Rightarrow> [] | Some ms \<Rightarrow> ms) @ [m]) d"

text \<open>The index of the first element that satisfies \<open>P\<close> (the \<open>enumerate\<close>/\<open>break\<close> scans).\<close>

fun first_index :: "('a \<Rightarrow> bool) \<Rightarrow> 'a list \<Rightarrow> nat option" where
  "first_index P [] = None"
| "first_index P (x # xs) = (if P x then Some 0 else map_option Suc (first_index P xs))"

definition del_at :: "nat \<Rightarrow> 'a list \<Rightarrow> 'a list" where
  "del_at pos xs = take pos xs @ drop (Suc pos) xs"

text \<open>
  The loop over \<open>prop.params\<close>: \<open>None\<close> is the early \<open>return False\<close>, \<open>Some d\<close> the dictionary
  of expectations that are left.
\<close>

fun match_params :: "Param list \<Rightarrow> byname \<Rightarrow> byname option" where
  "match_params [] d = Some d"
| "match_params (param # params) d =
     (if param_name param = ''ALTID'' then match_params params d
      else case map_of d (param_name param) of
        None \<Rightarrow> None
      | Some param_matches \<Rightarrow>
          if param_matches = [] then None
          else (case first_index (\<lambda>m. match_value (pmatch_value m) (param_value param))
                       param_matches of
            None \<Rightarrow> None
          | Some pos \<Rightarrow>
              let param_matches' = del_at pos param_matches in
              if param_matches' \<noteq> []
              then match_params params (AList.update (param_name param) param_matches' d)
              else match_params params (AList.delete (param_name param) d)))"

text \<open>
  \<open>PropMatch.match\<close> returns its verdict together with the two binding dictionaries, which it
  updates in place: a binding made by the ALTID step stays even when the group step then
  rejects the candidate.
\<close>

definition match_altid ::
  "AltIdMatch option \<Rightarrow> Param list \<Rightarrow> altid_table \<Rightarrow> bool \<times> altid_table" where
  "match_altid alt_id altid_params altid_by_id =
     (case alt_id of
        None \<Rightarrow> (True, altid_by_id)
      | Some a \<Rightarrow>
          if altid_mandatory a \<and> altid_params = [] then (False, altid_by_id)
          else if altid_params \<noteq> [] then
            (case map_of altid_by_id (altid_id a) of
               Some bound \<Rightarrow>
                 if param_value (hd altid_params) \<noteq> bound then (False, altid_by_id)
                 else (True, altid_by_id)
             | None \<Rightarrow>
                 if param_value (hd altid_params) \<in> snd ` set altid_by_id
                 then (False, altid_by_id)
                 else (True, AList.update (altid_id a) (param_value (hd altid_params))
                               altid_by_id))
          else (True, altid_by_id))"

definition match_group ::
  "group_spec option \<Rightarrow> string option \<Rightarrow> group_table \<Rightarrow> bool \<times> group_table" where
  "match_group grp observed group_by_id =
     (case grp of
        None \<Rightarrow> (True, group_by_id)
      | Some (GroupStr want) \<Rightarrow>
          if want = [] then (True, group_by_id)
          else if observed \<noteq> Some want then (False, group_by_id)
          else (True, group_by_id)
      | Some (GroupRef g) \<Rightarrow>
          (case map_of group_by_id (group_id g) of
             Some bound \<Rightarrow>
               if observed \<noteq> bound then (False, group_by_id) else (True, group_by_id)
           | None \<Rightarrow>
               if observed \<in> snd ` set group_by_id then (False, group_by_id)
               else (True, AList.update (group_id g) observed group_by_id)))"

definition PropMatch_match ::
  "PropMatch \<Rightarrow> Prop \<Rightarrow> group_table \<Rightarrow> altid_table \<Rightarrow> bool \<times> group_table \<times> altid_table" where
  "PropMatch_match self prop group_by_id altid_by_id =
     (if \<not> match_value (pm_value self) (prop_value prop) then (False, group_by_id, altid_by_id)
      else
        (case match_params (prop_params prop) (foldl byname_append [] (pm_params self)) of
           None \<Rightarrow> (False, group_by_id, altid_by_id)
         | Some left \<Rightarrow>
             (if list_ex (\<lambda>(_, param_matches). list_ex pmatch_mandatory param_matches) left
              then (False, group_by_id, altid_by_id)
              else
                (let altid_params =
                       filter (\<lambda>param. param_name param = ''ALTID'') (prop_params prop)
                 in if length altid_params > 1 then (False, group_by_id, altid_by_id)
                    else
                      (let (ok_altid, altid_by_id') =
                             match_altid (pm_alt_id self) altid_params altid_by_id
                       in if \<not> ok_altid then (False, group_by_id, altid_by_id')
                          else
                            (let (ok_group, group_by_id') =
                                   match_group (pm_group self) (prop_group prop) group_by_id
                             in (ok_group, group_by_id', altid_by_id')))))))"

subsection \<open>match_vcard\<close>

definition default_matches :: "PropMatch list" where
  "default_matches =
     [\<lparr>pm_name = ''PRODID'', pm_value = AnyValue, pm_params = [], pm_mandatory = False,
        pm_alt_id = None, pm_group = None\<rparr>,
      \<lparr>pm_name = ''REV'', pm_value = AnyValue, pm_params = [], pm_mandatory = False,
        pm_alt_id = None, pm_group = None\<rparr>,
      \<lparr>pm_name = ''UID'', pm_value = AnyValue, pm_params = [], pm_mandatory = True,
        pm_alt_id = None, pm_group = None\<rparr>,
      \<lparr>pm_name = ''VERSION'', pm_value = StrValue ''4.0'', pm_params = [], pm_mandatory = True,
        pm_alt_id = None, pm_group = None\<rparr>,
      \<lparr>pm_name = ''FN'', pm_value = AnyValue,
        pm_params = [\<lparr>pmatch_name = ''DERIVED'', pmatch_value = NoCaseValue ''TRUE'',
                      pmatch_mandatory = False\<rparr>],
        pm_mandatory = True, pm_alt_id = None, pm_group = None\<rparr>,
      \<lparr>pm_name = ''JSPROP'', pm_value = StrValue ([DQ] @ ''1.0'' @ [DQ]),
        pm_params = [\<lparr>pmatch_name = ''JSPTR'', pmatch_value = StrValue ''version'',
                      pmatch_mandatory = True\<rparr>,
                     \<lparr>pmatch_name = ''VALUE'', pmatch_value = NoCaseValue ''TEXT'',
                      pmatch_mandatory = False\<rparr>],
        pm_mandatory = False, pm_alt_id = None, pm_group = None\<rparr>,
      \<lparr>pm_name = ''CREATED'', pm_value = AnyValue, pm_params = [], pm_mandatory = False,
        pm_alt_id = None, pm_group = None\<rparr>]"

definition mismatched :: "Prop \<Rightarrow> PropMatch list \<Rightarrow> PropMatchError" where
  "mismatched prop candidates = \<lparr>err_prop = Some prop, err_candidates = Some candidates\<rparr>"

definition unmatched :: "PropMatch list \<Rightarrow> PropMatchError" where
  "unmatched candidates = \<lparr>err_prop = None, err_candidates = Some candidates\<rparr>"

definition unexpected :: "Prop \<Rightarrow> PropMatchError" where
  "unexpected prop = \<lparr>err_prop = Some prop, err_candidates = None\<rparr>"

type_synonym matches_table = "(string \<times> PropMatch list) list"

definition matches_append :: "matches_table \<Rightarrow> PropMatch \<Rightarrow> matches_table" where
  "matches_append d pm =
     AList.update (pm_name pm)
       ((case map_of d (pm_name pm) of None \<Rightarrow> [] | Some ms \<Rightarrow> ms) @ [pm]) d"

record match_state =
  matches_by_name :: matches_table
  group_by_id :: group_table
  altid_by_id :: altid_table
  match_errors :: "PropMatchError list"

text \<open>
  The scan \<open>for idx, pm in enumerate(matches): if pm.match(...): pos = idx; break\<close>: the
  position of the first candidate that accepts, and the dictionaries after every call made.
\<close>

fun scan_matches ::
  "PropMatch list \<Rightarrow> Prop \<Rightarrow> group_table \<Rightarrow> altid_table \<Rightarrow> nat option \<times> group_table \<times> altid_table"
  where
  "scan_matches [] prop g a = (None, g, a)"
| "scan_matches (pm # pms) prop g a =
     (let (ok, g', a') = PropMatch_match pm prop g a in
      if ok then (Some 0, g', a')
      else (let (pos, g'', a'') = scan_matches pms prop g' a' in (map_option Suc pos, g'', a'')))"

text \<open>The body of the loop \<open>for prop in props\<close>.\<close>

definition match_prop :: "Prop \<Rightarrow> match_state \<Rightarrow> match_state" where
  "match_prop prop st =
     (case map_of (matches_by_name st) (prop_name prop) of
        None \<Rightarrow> st\<lparr>match_errors := match_errors st @ [unexpected prop]\<rparr>
      | Some matches \<Rightarrow>
          (let (found, g, a) = scan_matches matches prop (group_by_id st) (altid_by_id st) in
           case found of
             None \<Rightarrow>
               st\<lparr>group_by_id := g, altid_by_id := a,
                  match_errors := match_errors st @ [mismatched prop matches]\<rparr>
           | Some pos \<Rightarrow>
               (let pm = matches ! pos; matches' = del_at pos matches in
                st\<lparr>matches_by_name :=
                     (if matches' \<noteq> []
                      then AList.update (pm_name pm) matches' (matches_by_name st)
                      else AList.delete (pm_name pm) (matches_by_name st)),
                   group_by_id := g, altid_by_id := a\<rparr>)))"

fun match_props :: "Prop list \<Rightarrow> match_state \<Rightarrow> match_state" where
  "match_props [] st = st"
| "match_props (prop # props) st = match_props props (match_prop prop st)"

definition initial_matches :: "PropMatch list \<Rightarrow> PropMatch list \<Rightarrow> matches_table" where
  "initial_matches want_matches defaults =
     foldl (\<lambda>d pm. if pm_name pm \<notin> set (map pm_name want_matches) then matches_append d pm else d)
       (foldl matches_append [] want_matches) defaults"

definition match_vcard :: "string \<Rightarrow> PropMatch list \<Rightarrow> PropMatch list \<Rightarrow> exn + unit" where
  "match_vcard vcard want_matches defaults =
     (case parse vcard of
        Inl e \<Rightarrow> Inl e
      | Inr props \<Rightarrow>
          if length props \<le> 2 \<or> prop_name (hd props) \<noteq> ''BEGIN''
             \<or> prop_name (last props) \<noteq> ''END''
          then Inl ValueError
          else
            (let props' = butlast (tl (normalize_vcard props));
                 st = match_props props'
                        \<lparr>matches_by_name = initial_matches want_matches defaults,
                         group_by_id = [], altid_by_id = [], match_errors = []\<rparr>;
                 unmatched_matches =
                   concat (map (\<lambda>(_, matches). filter pm_mandatory matches) (matches_by_name st));
                 errors = match_errors st
                          @ (if unmatched_matches \<noteq> [] then [unmatched unmatched_matches] else [])
             in if errors \<noteq> [] then Inl (VCardMatchError errors) else Inr ()))"

text \<open>
  The binding dictionary for ALTID is a bijection between the symbolic ids bound so far and
  the strings they are bound to: no key and no value occurs twice.
\<close>

definition bijective_table :: "altid_table \<Rightarrow> bool" where
  "bijective_table a \<longleftrightarrow> distinct (map fst a) \<and> distinct (map snd a)"

definition altid_params_of :: "Prop \<Rightarrow> Param list" where
  "altid_params_of prop = filter (\<lambda>param. param_name param = ''ALTID'') (prop_params prop)"

section \<open>Cards: normalization, patches and differences (jscardutil.py)\<close>

subsection \<open>Python primitives on JSON values\<close>

text \<open>Truth value of an object (\<open>not jsobj\<close>, \<open>if props\<close>).\<close>

fun truthy :: "json \<Rightarrow> bool" where
  "truthy JNull = False"
| "truthy (JBool b) = b"
| "truthy (JInt i) = (i \<noteq> 0)"
| "truthy (JStr s) = (s \<noteq> [])"
| "truthy (JList xs) = (xs \<noteq> [])"
| "truthy (JObj m) = (m \<noteq> [])"

text \<open>
  Python's \<open>==\<close>: \<open>bool\<close> is a subtype of \<open>int\<close> (\<open>False == 0\<close>), lists are compared element by
  element, dictionaries by their items regardless of order.
\<close>

fun py_eq :: "json \<Rightarrow> json \<Rightarrow> bool"
  and py_eq_list :: "json list \<Rightarrow> json list \<Rightarrow> bool"
  and py_eq_items :: "(string \<times> json) list \<Rightarrow> (string \<times> json) list \<Rightarrow> bool" where
  "py_eq JNull b = (b = JNull)"
| "py_eq (JBool x) b =
     (case b of JBool y \<Rightarrow> x = y | JInt j \<Rightarrow> (if x then 1 else 0) = j | _ \<Rightarrow> False)"
| "py_eq (JInt i) b =
     (case b of JBool y \<Rightarrow> i = (if y then 1 else 0) | JInt j \<Rightarrow> i = j | _ \<Rightarrow> False)"
| "py_eq (JStr s) b = (b = JStr s)"
| "py_eq (JList xs) b = (case b of JList ys \<Rightarrow> py_eq_list xs ys | _ \<Rightarrow> False)"
| "py_eq (JObj m) b =
     (case b of JObj n \<Rightarrow> length m = length n \<and> py_eq_items m n | _ \<Rightarrow> False)"
| "py_eq_list [] ys = (ys = [])"
| "py_eq_list (x # xs) ys = (case ys of [] \<Rightarrow> False | y # ys' \<Rightarrow> py_eq x y \<and> py_eq_list xs ys')"
| "py_eq_items [] n = True"
| "py_eq_items (kv # m) n =
     ((case map_of n (fst kv) of None \<Rightarrow> False | Some w \<Rightarrow> py_eq (snd kv) w) \<and> py_eq_items m n)"

text \<open>\<open>str(i)\<close> for an integer.\<close>

definition digit_char :: "nat \<Rightarrow> char" where
  "digit_char d = ''0123456789'' ! d"

fun nat_str :: "nat \<Rightarrow> string" where
  "nat_str n = (if n < 10 then [digit_char n] else nat_str (n div 10) @ [digit_char (n mod 10)])"

declare nat_str.simps [simp del]

definition int_str :: "int \<Rightarrow> string" where
  "int_str i = (if i < 0 then CHR ''-'' # nat_str (nat (- i)) else nat_str (nat i))"

text \<open>
  \<open>int(s)\<close> on ASCII text: surrounding white space is stripped, a sign may come first, and
  the digits may be grouped by single underscores.  \<open>None\<close> is \<open>ValueError\<close>.
\<close>

definition py_space :: "char \<Rightarrow> bool" where
  "py_space c \<longleftrightarrow> c \<in> set [CHR '' '', CHR 0x09, CHR 0x0A, CHR 0x0B, CHR 0x0C, CHR 0x0D,
                              CHR 0x1C, CHR 0x1D, CHR 0x1E, CHR 0x1F]"

definition digit_val :: "char \<Rightarrow> nat option" where
  "digit_val c = map_of (zip ''0123456789'' [0, 1, 2, 3, 4, 5, 6, 7, 8, 9]) c"

text \<open>\<open>after_digit\<close> tells whether the previous character was a digit.\<close>

fun py_digits :: "nat \<Rightarrow> bool \<Rightarrow> string \<Rightarrow> nat option" where
  "py_digits acc after_digit [] = (if after_digit then Some acc else None)"
| "py_digits acc after_digit (c # s) =
     (if c = CHR ''_'' then (if after_digit \<and> s \<noteq> [] then py_digits acc False s else None)
      else case digit_val c of
        None \<Rightarrow> None
      | Some d \<Rightarrow> py_digits (10 * acc + d) True s)"

definition py_int :: "string \<Rightarrow> int option" where
  "py_int s =
     (let t = rev (dropWhile py_space (rev (dropWhile py_space s))) in
      case t of
        [] \<Rightarrow> None
      | c # r \<Rightarrow>
          if c = CHR ''-'' then map_option (\<lambda>n. - int n) (py_digits 0 False r)
          else if c = CHR ''+'' then map_option int (py_digits 0 False r)
          else map_option int (py_digits 0 False t))"

text \<open>\<open>key.split("/")\<close>; \<open>cur\<close> is the piece collected so far.\<close>

fun split_slash :: "string \<Rightarrow> string \<Rightarrow> string list" where
  "split_slash cur [] = [cur]"
| "split_slash cur (c # s) =
     (if c = CHR ''/'' then cur # split_slash [] s else split_slash (cur @ [c]) s)"

text \<open>\<open>"/".join(segs)\<close>.\<close>

fun join_slash :: "string list \<Rightarrow> string" where
  "join_slash [] = []"
| "join_slash [s] = s"
| "join_slash (s # ss) = s @ ''/'' @ join_slash ss"

text \<open>Run a fallible step over a list; the first exception stops the loop.\<close>

fun sequence :: "(exn + 'a) list \<Rightarrow> exn + 'a list" where
  "sequence [] = Inr []"
| "sequence (r # rs) =
     (case r of
        Inl e \<Rightarrow> Inl e
      | Inr x \<Rightarrow> (case sequence rs of Inl e \<Rightarrow> Inl e | Inr xs \<Rightarrow> Inr (x # xs)))"

subsection \<open>json.dumps(v, sort_keys=True)\<close>

definition hex_char :: "nat \<Rightarrow> char" where
  "hex_char d = ''0123456789abcdef'' ! d"

text \<open>
  One character of a string literal with \<open>ensure_ascii\<close>: the short escapes, \<open>\u00XX\<close> for
  every other character outside the printable ASCII range, the character itself otherwise.
\<close>

definition escape_char :: "char \<Rightarrow> string" where
  "escape_char c =
     (if c = DQ then [BSL, DQ]
      else if c = BSL then [BSL, BSL]
      else if c = CHR 0x0A then [BSL, CHR ''n'']
      else if c = CHR 0x0D then [BSL, CHR ''r'']
      else if c = CHR 0x09 then [BSL, CHR ''t'']
      else if c = CHR 0x08 then [BSL, CHR ''b'']
      else if c = CHR 0x0C then [BSL, CHR ''f'']
      else if (of_char c :: nat) < 32 \<or> (of_char c :: nat) > 126
        then [BSL, CHR ''u'', CHR ''0'', CHR ''0'',
              hex_char ((of_char c :: nat) div 16), hex_char ((of_char c :: nat) mod 16)]
      else [c])"

definition dumps_str :: "string \<Rightarrow> string" where
  "dumps_str s = [DQ] @ concat (map escape_char s) @ [DQ]"

fun join_comma :: "string list \<Rightarrow> string" where
  "join_comma [] = []"
| "join_comma [s] = s"
| "join_comma (s # ss) = s @ '', '' @ join_comma ss"

fun dumps :: "json \<Rightarrow> string" where
  "dumps JNull = ''null''"
| "dumps (JBool b) = (if b then ''true'' else ''false'')"
| "dumps (JInt i) = int_str i"
| "dumps (JStr s) = dumps_str s"
| "dumps (JList xs) = ''['' @ join_comma (map dumps xs) @ '']''"
| "dumps (JObj m) =
     ''{'' @ join_comma (map (\<lambda>kv. dumps_str (fst kv) @ '': '' @ dumps (snd kv)) (sort_key fst m))
     @ ''}''"

subsection \<open>remove_defaultval and sort_unordered_components\<close>

text \<open>
  The functions of this module change their argument in place; the model returns the changed
  value and the caller puts it back where it was.  A character of a string is a string of
  length one.  \<open>jsobj.get\<close> exists on dictionaries only.
\<close>

fun remove_defaultval :: "json \<Rightarrow> string list \<Rightarrow> json \<Rightarrow> exn + json" where
  "remove_defaultval jsobj [] defaultval = Inr jsobj"
| "remove_defaultval jsobj (name # subpath) defaultval =
     (if \<not> truthy jsobj then Inr jsobj
      else if name = ''*'' \<and> subpath \<noteq> [] then
        (case jsobj of
           JObj m \<Rightarrow>
             (case sequence (map (\<lambda>kv. case remove_defaultval (snd kv) subpath defaultval of
                                          Inl e \<Rightarrow> Inl e | Inr v \<Rightarrow> Inr (fst kv, v)) m) of
                Inl e \<Rightarrow> Inl e
              | Inr m' \<Rightarrow> Inr (JObj m'))
         | JList xs \<Rightarrow>
             (case sequence (map (\<lambda>x. remove_defaultval x subpath defaultval) xs) of
                Inl e \<Rightarrow> Inl e
              | Inr xs' \<Rightarrow> Inr (JList xs'))
         | JStr s \<Rightarrow>
             (case sequence (map (\<lambda>c. remove_defaultval (JStr [c]) subpath defaultval) s) of
                Inl e \<Rightarrow> Inl e
              | Inr _ \<Rightarrow> Inr jsobj)
         | _ \<Rightarrow> Inl AttributeError)
      else if subpath \<noteq> [] then
        (case jsobj of
           JObj m \<Rightarrow>
             (case map_of m name of
                None \<Rightarrow> Inr jsobj
              | Some subobj \<Rightarrow>
                  (case remove_defaultval subobj subpath defaultval of
                     Inl e \<Rightarrow> Inl e
                   | Inr subobj' \<Rightarrow> Inr (JObj (AList.update name subobj' m))))
         | _ \<Rightarrow> Inl AttributeError)
      else
        (case jsobj of
           JObj m \<Rightarrow>
             if py_eq (case map_of m name of None \<Rightarrow> JNull | Some v \<Rightarrow> v) defaultval
             then (if name \<in> fst ` set m then Inr (JObj (AList.delete name m)) else Inl KeyError)
             else Inr jsobj
         | _ \<Rightarrow> Inl AttributeError))"

definition sort_unordered_components :: "json \<Rightarrow> exn + json" where
  "sort_unordered_components jsobj =
     (case jsobj of
        JObj m \<Rightarrow>
          if \<not> truthy (case map_of m ''isOrdered'' of None \<Rightarrow> JBool False | Some v \<Rightarrow> v) then
            (case map_of m ''components'' of
               None \<Rightarrow> Inr jsobj
             | Some comps \<Rightarrow>
                 if truthy comps then
                   (case comps of
                      JList xs \<Rightarrow>
                        Inr (JObj (AList.update ''components'' (JList (sort_key dumps xs)) m))
                    | _ \<Rightarrow> Inl AttributeError)
                 else Inr jsobj)
          else Inr jsobj
      | _ \<Rightarrow> Inl AttributeError)"

subsection \<open>apply_patchobject\<close>

text \<open>
  The \<open>while path\<close> loop for one entry.  The result is the changed tree and whether the value of
  the entry was stored (\<open>jsobj[path[0]] = val\<close>); a key that exists is only descended into.
  Subscripting a string or a number with a string raises \<open>TypeError\<close>, which the source does
  not catch.
\<close>

fun walk :: "json \<Rightarrow> string list \<Rightarrow> json \<Rightarrow> exn + (json \<times> bool)" where
  "walk jsobj [] val = Inr (jsobj, False)"
| "walk jsobj (seg # path) val =
     (case jsobj of
        JList xs \<Rightarrow>
          (case py_int seg of
             None \<Rightarrow> Inl ValueError
           | Some i \<Rightarrow>
               (let n = int (length xs); j = (if i < 0 then n + i else i) in
                if 0 \<le> j \<and> j < n then
                  (case walk (xs ! nat j) path val of
                     Inl e \<Rightarrow> Inl e
                   | Inr (sub, stored) \<Rightarrow> Inr (JList (xs[nat j := sub]), stored))
                else Inl ValueError))
      | JObj m \<Rightarrow>
          (case map_of m seg of
             Some subobj \<Rightarrow>
               (case walk subobj path val of
                  Inl e \<Rightarrow> Inl e
                | Inr (sub, stored) \<Rightarrow> Inr (JObj (AList.update seg sub m), stored))
           | None \<Rightarrow>
               if path \<noteq> [] then Inl ValueError
               else Inr (JObj (AList.update seg val m), True))
      | _ \<Rightarrow> Inl TypeError)"

text \<open>The object that a path leads to, by the same rules.\<close>

fun lookup_path :: "json \<Rightarrow> string list \<Rightarrow> json option" where
  "lookup_path jsobj [] = Some jsobj"
| "lookup_path jsobj (seg # path) =
     (case jsobj of
        JList xs \<Rightarrow>
          (case py_int seg of
             None \<Rightarrow> None
           | Some i \<Rightarrow>
               (let n = int (length xs); j = (if i < 0 then n + i else i) in
                if 0 \<le> j \<and> j < n then lookup_path (xs ! nat j) path else None))
      | JObj m \<Rightarrow> (case map_of m seg of Some subobj \<Rightarrow> lookup_path subobj path | None \<Rightarrow> None)
      | _ \<Rightarrow> None)"

text \<open>
  The loop over \<open>pobj.items()\<close>.  The state is the card and the keys of the entries whose value
  has been stored in it.  A stored value is the same object in the card and in the patch
  object, so what later entries add inside it shows in both; \<open>patch_view\<close> is the patch object
  as it then reads.  The loop stops at the first exception, the card as changed so far stays
  with the caller.
\<close>

fun apply_entries ::
  "json \<Rightarrow> string list \<Rightarrow> (string \<times> json) list \<Rightarrow> exn option \<times> json \<times> string list" where
  "apply_entries jscard stored [] = (None, jscard, stored)"
| "apply_entries jscard stored ((key, val) # entries) =
     (case walk jscard (split_slash [] key) val of
        Inl e \<Rightarrow> (Some e, jscard, stored)
      | Inr (jscard', st) \<Rightarrow>
          apply_entries jscard' (if st then stored @ [key] else stored) entries)"

definition patch_view :: "json \<Rightarrow> string list \<Rightarrow> (string \<times> json) list \<Rightarrow> (string \<times> json) list" where
  "patch_view jscard stored entries =
     map (\<lambda>(key, val).
            if key \<in> set stored
            then (key, case lookup_path jscard (split_slash [] key) of Some v \<Rightarrow> v | None \<Rightarrow> val)
            else (key, val)) entries"

text \<open>
  \<open>apply_patchobject(jscard, pobj)\<close>: the exception raised, if any, the card and the patch
  object afterwards.  \<open>pobj.items()\<close> exists on a dictionary only.
\<close>

definition apply_patchobject :: "json \<Rightarrow> json \<Rightarrow> exn option \<times> json \<times> json" where
  "apply_patchobject jscard pobj =
     (case pobj of
        JObj entries \<Rightarrow>
          (let (err, jscard', stored) = apply_entries jscard [] entries
           in (err, jscard', JObj (patch_view jscard' stored entries)))
      | _ \<Rightarrow> (Some AttributeError, jscard, pobj))"

subsection \<open>normalize_vcardparams\<close>

text \<open>A measure of the size of a tree, for the recursions that are not structural.\<close>

fun jsize :: "json \<Rightarrow> nat"
  and jsize_list :: "json list \<Rightarrow> nat"
  and jsize_items :: "(string \<times> json) list \<Rightarrow> nat" where
  "jsize JNull = 0"
| "jsize (JBool b) = 0"
| "jsize (JInt i) = 0"
| "jsize (JStr s) = 0"
| "jsize (JList xs) = Suc (jsize_list xs)"
| "jsize (JObj m) = Suc (jsize_items m)"
| "jsize_list [] = 0"
| "jsize_list (x # xs) = Suc (jsize x + jsize_list xs)"
| "jsize_items [] = 0"
| "jsize_items (kv # m) = Suc (jsize (snd kv) + jsize_items m)"

text \<open>
  The \<open>try\<close> block of \<open>normalize_vcardparams\<close> on a dictionary: \<open>KeyError\<close> is caught,
  \<open>del\<close> on something that is not a dictionary raises \<open>TypeError\<close>.
\<close>

definition strip_group :: "(string \<times> json) list \<Rightarrow> exn + (string \<times> json) list" where
  "strip_group m =
     (case map_of m ''vCardParams'' of
        None \<Rightarrow> Inr m
      | Some (JObj params) \<Rightarrow>
          if ''group'' \<in> fst ` set params then
            (let params' = AList.delete ''group'' params in
             if params' = [] then Inr (AList.delete ''vCardParams'' m)
             else Inr (AList.update ''vCardParams'' (JObj params') m))
          else Inr m
      | Some _ \<Rightarrow> Inl TypeError)"

lemma jsize_items_mem: "kv \<in> set m \<Longrightarrow> jsize (snd kv) < jsize_items m"
  by (induction m) auto

lemma jsize_list_mem: "x \<in> set xs \<Longrightarrow> jsize x < jsize_list xs"
  by (induction xs) auto

lemma jsize_items_delete: "jsize_items (AList.delete k m) \<le> jsize_items m"
  by (induction m) auto

lemma jsize_items_update:
  "jsize_items (AList.update k v m) \<le> jsize_items m + Suc (jsize v)"
  by (induction m) auto

lemma jsize_items_update_le:
  "map_of m k = Some v0 \<Longrightarrow> jsize v \<le> jsize v0 \<Longrightarrow>
   jsize_items (AList.update k v m) \<le> jsize_items m"
  by (induction m) auto

lemma strip_group_size: "strip_group m = Inr m' \<Longrightarrow> jsize_items m' \<le> jsize_items m"
proof -
  assume a: "strip_group m = Inr m'"
  show ?thesis
  proof (cases "map_of m ''vCardParams''")
    case None
    with a show ?thesis by (simp add: strip_group_def)
  next
    case (Some v)
    show ?thesis
    proof (cases v)
      case (JObj params)
      have "jsize (JObj (AList.delete ''group'' params)) \<le> jsize (JObj params)"
        by (simp add: jsize_items_delete)
      from jsize_items_update_le [OF _ this] Some JObj
      have "jsize_items (AList.update ''vCardParams'' (JObj (AList.delete ''group'' params)) m)
              \<le> jsize_items m" by simp
      with a Some JObj show ?thesis
        by (auto simp: strip_group_def Let_def jsize_items_delete split: if_splits)
    qed (use a Some in \<open>simp_all add: strip_group_def\<close>)
  qed
qed

function normalize_vcardparams :: "json \<Rightarrow> exn + json" where
  "normalize_vcardparams jsobj =
     (case jsobj of
        JObj m \<Rightarrow>
          (case strip_group m of
             Inl e \<Rightarrow> Inl e
           | Inr m' \<Rightarrow>
               (case sequence (map (\<lambda>kv. case normalize_vcardparams (snd kv) of
                                            Inl e \<Rightarrow> Inl e | Inr v \<Rightarrow> Inr (fst kv, v)) m') of
                  Inl e \<Rightarrow> Inl e
                | Inr m'' \<Rightarrow> Inr (JObj m'')))
      | JList xs \<Rightarrow>
          (case sequence (map normalize_vcardparams xs) of
             Inl e \<Rightarrow> Inl e
           | Inr xs' \<Rightarrow> Inr (JList xs'))
      | _ \<Rightarrow> Inr jsobj)"
  by pat_completeness auto
termination
proof (relation "measure jsize")
  show "wf (measure jsize)" by simp
next
  fix jsobj m m' kv
  assume "jsobj = JObj m" "strip_group m = Inr m'" "kv \<in> set m'"
  thus "(snd kv, jsobj) \<in> measure jsize"
    using jsize_items_mem [of kv m'] strip_group_size [of m m'] by simp
next
  fix jsobj xs x
  assume "jsobj = JList xs" "x \<in> set xs"
  thus "(x, jsobj) \<in> measure jsize" using jsize_list_mem [of x xs] by simp
qed

declare normalize_vcardparams.simps [simp del]

subsection \<open>normalize_jscard\<close>

definition default_values :: "(string list \<times> json) list" where
  "default_values =
     [([''addresses'', ''*'', ''@type''], JStr ''Address''),
      ([''addresses'', ''*'', ''isOrdered''], JBool False),
      ([''addresses'', ''*'', ''components'', ''*'', ''@type''], JStr ''AddressComponent''),
      ([''anniversaries'', ''*'', ''@type''], JStr ''Anniversary''),
      ([''anniversaries'', ''*'', ''date'', ''@type''], JStr ''PartialDate''),
      ([''anniversaries'', ''*'', ''place'', ''@type''], JStr ''Address''),
      ([''calendars'', ''*'', ''@type''], JStr ''Calendar''),
      ([''cryptoKeys'', ''*'', ''@type''], JStr ''CryptoKey''),
      ([''directories'', ''*'', ''@type''], JStr ''Directory''),
      ([''emails'', ''*'', ''@type''], JStr ''EmailAddress''),
      ([''kind''], JStr ''individual''),
      ([''links'', ''*'', ''@type''], JStr ''Link''),
      ([''media'', ''*'', ''@type''], JStr ''Media''),
      ([''name'', ''@type''], JStr ''Name''),
      ([''name'', ''isOrdered''], JBool False),
      ([''name'', ''components'', ''*'', ''@type''], JStr ''NameComponent''),
      ([''nicknames'', ''*'', ''@type''], JStr ''Nickname''),
      ([''notes'', ''*'', ''@type''], JStr ''Note''),
      ([''notes'', ''*'', ''author'', ''@type''], JStr ''Author''),
      ([''onlineServices'', ''*'', ''@type''], JStr ''OnlineService''),
      ([''organizations'', ''*'', ''@type''], JStr ''Organization''),
      ([''organizations'', ''*'', ''units'', ''*'', ''@type''], JStr ''OrgUnit''),
      ([''personalInfo'', ''*'', ''@type''], JStr ''PersonalInfo''),
      ([''phones'', ''*'', ''@type''], JStr ''Phone''),
      ([''preferredLanguages'', ''*'', ''@type''], JStr ''LanguagePref''),
      ([''relatedTo'', ''*'', ''@type''], JStr ''Relation''),
      ([''schedulingAddresses'', ''*'', ''@type''], JStr ''SchedulingAddress''),
      ([''speakToAs'', ''@type''], JStr ''SpeakToAs''),
      ([''speakToAs'', ''pronouns'', ''*'', ''@type''], JStr ''Pronouns''),
      ([''titles'', ''*'', ''@type''], JStr ''Title''),
      ([''titles'', ''*'', ''kind''], JStr ''title'')]"

text \<open>The loop \<open>for path, val in default_values.items()\<close>.\<close>

fun remove_defaults :: "(string list \<times> json) list \<Rightarrow> json \<Rightarrow> exn + json" where
  "remove_defaults [] jscard = Inr jscard"
| "remove_defaults ((path, val) # table) jscard =
     (case remove_defaultval jscard path val of
        Inl e \<Rightarrow> Inl e
      | Inr jscard' \<Rightarrow> remove_defaults table jscard')"

text \<open>The items of a dictionary.\<close>

fun obj_items :: "json \<Rightarrow> (string \<times> json) list" where
  "obj_items (JObj m) = m"
| "obj_items _ = []"

definition sort_name :: "(string \<times> json) list \<Rightarrow> exn + (string \<times> json) list" where
  "sort_name jscard =
     (case map_of jscard ''name'' of
        None \<Rightarrow> Inr jscard
      | Some nm \<Rightarrow>
          (case sort_unordered_components nm of
             Inl e \<Rightarrow> Inl e
           | Inr nm' \<Rightarrow> Inr (AList.update ''name'' nm' jscard)))"

definition sort_addresses :: "(string \<times> json) list \<Rightarrow> exn + (string \<times> json) list" where
  "sort_addresses jscard =
     (case map_of jscard ''addresses'' of
        None \<Rightarrow> Inr jscard
      | Some (JObj addrs) \<Rightarrow>
          (case sequence (map (\<lambda>kv. case sort_unordered_components (snd kv) of
                                       Inl e \<Rightarrow> Inl e | Inr v \<Rightarrow> Inr (fst kv, v)) addrs) of
             Inl e \<Rightarrow> Inl e
           | Inr addrs' \<Rightarrow> Inr (AList.update ''addresses'' (JObj addrs') jscard))
      | Some _ \<Rightarrow> Inl AttributeError)"

text \<open>\<open>for p in x\<close> and \<open>p[0]\<close> for a JSON value.\<close>

fun iterate :: "json \<Rightarrow> exn + json list" where
  "iterate (JList xs) = Inr xs"
| "iterate (JObj m) = Inr (map (\<lambda>kv. JStr (fst kv)) m)"
| "iterate (JStr s) = Inr (map (\<lambda>c. JStr [c]) s)"
| "iterate _ = Inl TypeError"

fun first_item :: "json \<Rightarrow> exn + json" where
  "first_item (JList xs) = (case xs of [] \<Rightarrow> Inl IndexError | x # _ \<Rightarrow> Inr x)"
| "first_item (JStr s) = (case s of [] \<Rightarrow> Inl IndexError | c # _ \<Rightarrow> Inr (JStr [c]))"
| "first_item (JObj m) = Inl KeyError"
| "first_item _ = Inl TypeError"

text \<open>\<open>[p for p in ... if p[0] != "version"]\<close>.\<close>

fun drop_version :: "json list \<Rightarrow> exn + json list" where
  "drop_version [] = Inr []"
| "drop_version (p # ps) =
     (case first_item p of
        Inl e \<Rightarrow> Inl e
      | Inr f \<Rightarrow>
          (case drop_version ps of
             Inl e \<Rightarrow> Inl e
           | Inr props \<Rightarrow> Inr (if \<not> py_eq f (JStr ''version'') then p # props else props)))"

definition filter_vcardprops :: "(string \<times> json) list \<Rightarrow> exn + (string \<times> json) list" where
  "filter_vcardprops jscard =
     (case map_of jscard ''vCardProps'' of
        None \<Rightarrow> Inr jscard
      | Some v \<Rightarrow>
          (case iterate v of
             Inl e \<Rightarrow> Inl e
           | Inr ps \<Rightarrow>
               (case drop_version ps of
                  Inl e \<Rightarrow> Inl e
                | Inr props \<Rightarrow>
                    if props \<noteq> [] then Inr (AList.update ''vCardProps'' (JList props) jscard)
                    else Inr (AList.delete ''vCardProps'' jscard))))"

text \<open>
  Everything \<open>normalize_jscard\<close> does between detaching \<open>localizations\<close> and resolving them.
\<close>

definition normalize_base :: "(string \<times> json) list \<Rightarrow> exn + (string \<times> json) list" where
  "normalize_base jscard =
     (case remove_defaults default_values (JObj jscard) of
        Inl e \<Rightarrow> Inl e
      | Inr j1 \<Rightarrow>
          (case sort_name (obj_items j1) of
             Inl e \<Rightarrow> Inl e
           | Inr m2 \<Rightarrow>
               (case sort_addresses m2 of
                  Inl e \<Rightarrow> Inl e
                | Inr m3 \<Rightarrow>
                    (case filter_vcardprops m3 of
                       Inl e \<Rightarrow> Inl e
                     | Inr m4 \<Rightarrow>
                         (case normalize_vcardparams (JObj m4) of
                            Inl e \<Rightarrow> Inl e
                          | Inr j5 \<Rightarrow> Inr (obj_items j5))))))"

text \<open>
  Facts for the termination of \<open>normalize_jscard\<close>: no step before the localizations adds a
  key to the card, and a patched copy holds under \<open>localizations\<close> at most what the patch
  object brought.
\<close>

definition locsize :: "(string \<times> json) list \<Rightarrow> nat" where
  "locsize m = (case map_of m ''localizations'' of None \<Rightarrow> 0 | Some v \<Rightarrow> Suc (jsize v))"

lemma in_update_keys:
  "(a, b) \<in> set (AList.update k v m) \<Longrightarrow> map_of m k = Some v0 \<Longrightarrow> a \<in> fst ` set m"
proof -
  assume "(a, b) \<in> set (AList.update k v m)" and k: "map_of m k = Some v0"
  hence "a \<in> fst ` set (AList.update k v m)" by force
  hence "a \<in> {k} \<union> fst ` set m" by (simp only: dom_update)
  moreover have "k \<in> fst ` set m" using map_of_SomeD [OF k] by force
  ultimately show ?thesis by auto
qed

lemma in_delete_keys: "(a, b) \<in> set (AList.delete k m) \<Longrightarrow> a \<in> fst ` set m"
  using dom_delete_subset [of k m] by force

lemma sequence_map_keys:
  "sequence (map (\<lambda>kv. case f (snd kv) of Inl e \<Rightarrow> Inl e | Inr v \<Rightarrow> Inr (fst kv, v)) m) = Inr m'
   \<Longrightarrow> map fst m' = map fst m"
proof (induction m arbitrary: m')
  case Nil
  then show ?case by simp
next
  case (Cons kv m)
  then show ?case by (auto split: sum.splits)
qed

lemma remove_defaultval_obj:
  assumes "remove_defaultval (JObj m) path d = Inr j"
  shows "\<exists>m'. j = JObj m' \<and> fst ` set m' \<subseteq> fst ` set m"
proof (cases path)
  case Nil
  with assms show ?thesis by auto
next
  case (Cons name subpath)
  show ?thesis
  proof (cases "m = []")
    case True
    with assms Cons show ?thesis by auto
  next
    case False
    note ne = this
    show ?thesis
    proof (cases "name = ''*'' \<and> subpath \<noteq> []")
      case True
      with assms Cons ne obtain m' where
        s: "sequence (map (\<lambda>kv. case remove_defaultval (snd kv) subpath d of
                                Inl e \<Rightarrow> Inl e | Inr v \<Rightarrow> Inr (fst kv, v)) m) = Inr m'"
        and j: "j = JObj m'"
        by (auto split: sum.splits)
      from sequence_map_keys [OF s] have "fst ` set m' = fst ` set m"
        by (metis set_map)
      with j show ?thesis by simp
    next
      case False
      note nowild = this
      show ?thesis
      proof (cases "subpath = []")
        case True
        with assms Cons ne nowild have "j = JObj m \<or> j = JObj (AList.delete name m)"
          by (auto split: if_splits)
        thus ?thesis using dom_delete_subset [of name m] by auto
      next
        case False
        show ?thesis
        proof (cases "map_of m name")
          case None
          with assms Cons ne nowild False show ?thesis by auto
        next
          case (Some subobj)
          with assms Cons ne nowild False obtain subobj' where
            "j = JObj (AList.update name subobj' m)"
            by (auto split: sum.splits)
          moreover have "name \<in> fst ` set m" using map_of_SomeD [OF Some] by force
          ultimately show ?thesis by (auto simp: dom_update)
        qed
      qed
    qed
  qed
qed

lemma remove_defaults_obj:
  "remove_defaults table (JObj m) = Inr j \<Longrightarrow> \<exists>m'. j = JObj m' \<and> fst ` set m' \<subseteq> fst ` set m"
proof (induction table arbitrary: m)
  case Nil
  then show ?case by auto
next
  case (Cons pv table)
  obtain path val where pv: "pv = (path, val)" by (cases pv)
  from Cons.prems pv obtain j1 where
    r1: "remove_defaultval (JObj m) path val = Inr j1" and r2: "remove_defaults table j1 = Inr j"
    by (auto split: sum.splits)
  from remove_defaultval_obj [OF r1] obtain m1 where
    m1: "j1 = JObj m1" "fst ` set m1 \<subseteq> fst ` set m" by blast
  from Cons.IH [of m1] r2 m1 show ?case by blast
qed

lemma sort_name_keys: "sort_name m = Inr m' \<Longrightarrow> fst ` set m' \<subseteq> fst ` set m"
  by (auto simp: sort_name_def split: option.splits sum.splits intro: in_update_keys)

lemma sort_addresses_keys: "sort_addresses m = Inr m' \<Longrightarrow> fst ` set m' \<subseteq> fst ` set m"
  by (auto simp: sort_addresses_def split: option.splits sum.splits json.splits
           intro: in_update_keys)

lemma filter_vcardprops_keys: "filter_vcardprops m = Inr m' \<Longrightarrow> fst ` set m' \<subseteq> fst ` set m"
  by (auto simp: filter_vcardprops_def split: option.splits sum.splits if_splits
           intro: in_update_keys in_delete_keys)

lemma strip_group_keys: "strip_group m = Inr m' \<Longrightarrow> fst ` set m' \<subseteq> fst ` set m"
  by (auto simp: strip_group_def Let_def split: option.splits json.splits if_splits
           intro: in_update_keys in_delete_keys)

lemma normalize_vcardparams_obj:
  assumes "normalize_vcardparams (JObj m) = Inr j"
  shows "\<exists>m'. j = JObj m' \<and> fst ` set m' \<subseteq> fst ` set m"
proof -
  from assms obtain m1 m2 where
    s: "strip_group m = Inr m1"
    and q: "sequence (map (\<lambda>kv. case normalize_vcardparams (snd kv) of
                              Inl e \<Rightarrow> Inl e | Inr v \<Rightarrow> Inr (fst kv, v)) m1) = Inr m2"
    and j: "j = JObj m2"
    by (subst (asm) normalize_vcardparams.simps) (auto split: sum.splits)
  from sequence_map_keys [OF q] have "fst ` set m2 = fst ` set m1" by (metis set_map)
  with strip_group_keys [OF s] j show ?thesis by simp
qed

lemma normalize_base_keys:
  assumes "normalize_base m = Inr b"
  shows "fst ` set b \<subseteq> fst ` set m"
proof -
  from assms obtain j1 m2 m3 m4 j5 where
    s1: "remove_defaults default_values (JObj m) = Inr j1"
    and s2: "sort_name (obj_items j1) = Inr m2"
    and s3: "sort_addresses m2 = Inr m3"
    and s4: "filter_vcardprops m3 = Inr m4"
    and s5: "normalize_vcardparams (JObj m4) = Inr j5"
    and b: "b = obj_items j5"
    by (auto simp: normalize_base_def split: sum.splits)
  from remove_defaults_obj [OF s1] obtain m1 where m1: "j1 = JObj m1" "fst ` set m1 \<subseteq> fst ` set m"
    by blast
  from normalize_vcardparams_obj [OF s5] obtain m5 where
    m5: "j5 = JObj m5" "fst ` set m5 \<subseteq> fst ` set m4" by blast
  from sort_name_keys [OF s2] sort_addresses_keys [OF s3] filter_vcardprops_keys [OF s4] m1 m5 b
  show ?thesis by auto
qed

lemma jsize_list_update:
  "n < length xs \<Longrightarrow> jsize_list (xs[n := y]) + jsize (xs ! n) = jsize_list xs + jsize y"
proof (induction xs arbitrary: n)
  case Nil
  then show ?case by simp
next
  case (Cons x xs)
  then show ?case by (cases n) auto
qed

lemma jsize_items_update_eq:
  "map_of m k = Some v0 \<Longrightarrow>
   jsize_items (AList.update k v m) + jsize v0 = jsize_items m + jsize v"
  by (induction m) auto

lemma walk_size:
  "walk j path val = Inr (j', st) \<Longrightarrow> jsize j' \<le> jsize j + Suc (jsize val)"
proof (induction j path val arbitrary: j' st rule: walk.induct)
  case (1 jsobj val)
  then show ?case by simp
next
  case (2 jsobj seg path val)
  show ?case
  proof (cases jsobj)
    case (JList xs)
    with "2.prems" obtain i sub where
      i: "py_int seg = Some i"
      and rng: "0 \<le> (if i < 0 then int (length xs) + i else i)"
               "(if i < 0 then int (length xs) + i else i) < int (length xs)"
      and w: "walk (xs ! nat (if i < 0 then int (length xs) + i else i)) path val = Inr (sub, st)"
      and j': "j' = JList (xs[nat (if i < 0 then int (length xs) + i else i) := sub])"
      by (auto simp: Let_def split: option.splits if_splits sum.splits)
    let ?n = "nat (if i < 0 then int (length xs) + i else i)"
    have n: "?n < length xs" using rng by linarith
    have "jsize sub \<le> jsize (xs ! ?n) + Suc (jsize val)"
      using "2.IH"(1) [OF JList i refl refl _ w] rng by simp
    with jsize_list_update [OF n, of sub] j' JList show ?thesis by simp
  next
    case (JObj m)
    show ?thesis
    proof (cases "map_of m seg")
      case None
      with "2.prems" JObj have "j' = JObj (AList.update seg val m)"
        by (auto split: if_splits)
      with JObj jsize_items_update [of seg val m] show ?thesis by simp
    next
      case (Some subobj)
      with "2.prems" JObj obtain sub where
        w: "walk subobj path val = Inr (sub, st)" and j': "j' = JObj (AList.update seg sub m)"
        by (auto split: sum.splits)
      have "jsize sub \<le> jsize subobj + Suc (jsize val)"
        using "2.IH"(2) [OF JObj Some w] .
      with jsize_items_update_eq [OF Some, of sub] j' JObj show ?thesis by simp
    qed
  qed (use "2.prems" in simp_all)
qed

lemma walk_locsize:
  assumes "walk (JObj m) path val = Inr (j', st)"
  shows "\<exists>m'. j' = JObj m' \<and> locsize m' \<le> locsize m + Suc (jsize val)"
proof (cases path)
  case Nil
  with assms show ?thesis by auto
next
  case (Cons seg rest)
  show ?thesis
  proof (cases "map_of m seg")
    case None
    with assms Cons have "j' = JObj (AList.update seg val m)" by (auto split: if_splits)
    thus ?thesis by (auto simp: locsize_def update_conv' split: option.splits)
  next
    case (Some subobj)
    with assms Cons obtain sub where
      w: "walk subobj rest val = Inr (sub, st)" and j': "j' = JObj (AList.update seg sub m)"
      by (auto split: sum.splits)
    from walk_size [OF w] j' Some show ?thesis
      by (auto simp: locsize_def update_conv' split: option.splits)
  qed
qed

lemma apply_entries_locsize:
  "apply_entries (JObj m) stored es = (err, j', stored') \<Longrightarrow>
   \<exists>m'. j' = JObj m' \<and> locsize m' \<le> locsize m + jsize_items es"
proof (induction es arbitrary: m stored)
  case Nil
  then show ?case by auto
next
  case (Cons kv es)
  obtain key val where kv: "kv = (key, val)" by (cases kv)
  show ?case
  proof (cases "walk (JObj m) (split_slash [] key) val")
    case (Inl e)
    with Cons.prems kv show ?thesis by auto
  next
    case (Inr r)
    obtain j1 st where r: "r = (j1, st)" by (cases r)
    from walk_locsize [of m "split_slash [] key" val j1 st] Inr r obtain m1 where
      m1: "j1 = JObj m1" "locsize m1 \<le> locsize m + Suc (jsize val)" by auto
    from Cons.prems kv Inr r m1
    have "apply_entries (JObj m1) (if st then stored @ [key] else stored) es = (err, j', stored')"
      by simp
    from Cons.IH [OF this] obtain m' where
      "j' = JObj m'" "locsize m' \<le> locsize m1 + jsize_items es" by blast
    with m1 kv show ?thesis by auto
  qed
qed

lemma normalize_jscard_decreases:
  assumes base: "normalize_base (AList.delete ''localizations'' jscard) = Inr base"
    and locs: "map_of jscard ''localizations'' = Some (JObj locs)"
    and kv: "kv \<in> set locs"
    and ap: "apply_patchobject (JObj base) (snd kv) = (err, patched, pobj')"
  shows "locsize (obj_items patched) < locsize jscard"
proof -
  have "''localizations'' \<notin> fst ` set base"
    using normalize_base_keys [OF base] delete_notin_dom [of "''localizations''" jscard] by blast
  hence "map_of base ''localizations'' = None" by (simp add: map_of_eq_None_iff)
  hence b0: "locsize base = 0" by (simp add: locsize_def)
  have big: "jsize (snd kv) < jsize (JObj locs)" using jsize_items_mem [OF kv] by simp
  have "locsize (obj_items patched) \<le> jsize (snd kv)"
  proof (cases "snd kv")
    case (JObj es)
    obtain e j s where a: "apply_entries (JObj base) [] es = (e, j, s)"
      by (cases "apply_entries (JObj base) [] es") auto
    with ap JObj have "patched = j" by (simp add: apply_patchobject_def)
    with apply_entries_locsize [OF a] b0 JObj show ?thesis by auto
  qed (use ap b0 in \<open>auto simp: apply_patchobject_def\<close>)
  with big locs show ?thesis by (simp add: locsize_def)
qed

lemma normalize_jscard_decreases_pair:
  assumes "normalize_base (AList.delete ''localizations'' jscard) = Inr base"
    and "map_of jscard ''localizations'' = Some (JObj locs)"
    and "(l, patch) \<in> set locs"
    and "(err, patched, pobj') = apply_patchobject (JObj base) patch"
  shows "locsize (obj_items patched) < locsize jscard"
  using normalize_jscard_decreases [OF assms(1,2,3), of err patched pobj'] assms(4) by simp

text \<open>
  \<open>normalize_jscard\<close>.  \<open>jscard.pop("localizations", None)\<close> comes first and the patches are
  resolved last, each on its own deep copy of the normalized card; \<open>ValueError\<close> from a patch
  is caught and leaves the patch object in place.
\<close>

function normalize_jscard :: "(string \<times> json) list \<Rightarrow> exn + (string \<times> json) list" where
  "normalize_jscard jscard =
     (case normalize_base (AList.delete ''localizations'' jscard) of
        Inl e \<Rightarrow> Inl e
      | Inr base \<Rightarrow>
          (case map_of jscard ''localizations'' of
             None \<Rightarrow> Inr base
           | Some localizations \<Rightarrow>
               if \<not> truthy localizations then Inr base
               else
                 (case localizations of
                    JObj locs \<Rightarrow>
                      (case sequence (map (\<lambda>kv.
                               case apply_patchobject (JObj base) (snd kv) of
                                 (Some e, patched, pobj') \<Rightarrow>
                                   (case e of ValueError \<Rightarrow> Inr (fst kv, pobj') | _ \<Rightarrow> Inl e)
                               | (None, patched, pobj') \<Rightarrow>
                                   (case normalize_jscard (obj_items patched) of
                                      Inl e \<Rightarrow>
                                        (case e of ValueError \<Rightarrow> Inr (fst kv, pobj') | _ \<Rightarrow> Inl e)
                                    | Inr patched' \<Rightarrow> Inr (fst kv, JObj patched'))) locs) of
                         Inl e \<Rightarrow> Inl e
                       | Inr locs' \<Rightarrow> Inr (AList.update ''localizations'' (JObj locs') base))
                  | _ \<Rightarrow> Inl AttributeError)))"
  by pat_completeness auto
termination
  by (relation "measure locsize") (auto intro: normalize_jscard_decreases_pair)

declare normalize_jscard.simps [simp del]

subsection \<open>encode_path and the structural differ\<close>

text \<open>\<open>s.replace(c, r)\<close> for a single character \<open>c\<close>.\<close>

definition replace_char :: "char \<Rightarrow> string \<Rightarrow> string \<Rightarrow> string" where
  "replace_char c r s = concat (map (\<lambda>x. if x = c then r else [x]) s)"

definition encode_path :: "string list \<Rightarrow> string" where
  "encode_path segs =
     (if segs \<noteq> [] \<and> hd segs = ''localizations'' then join_slash segs
      else join_slash (map (\<lambda>p. replace_char CHR ''/'' ''~1'' (replace_char CHR ''~'' ''~0'' p)) segs))"

text \<open>
  \<open>diff_objs\<close> and \<open>diff_list\<close> append to the list \<open>diffs\<close>; the model returns what a call
  appends.  \<open>diff_vals\<close> is the \<open>if\<close>/\<open>elif\<close> chain that both apply to a pair of values,
  with the bodies of \<open>diff_objs\<close> and \<open>diff_list\<close> in its first two cases; \<open>diff_shared\<close> and
  \<open>diff_elems\<close> are their loops over the shared keys and over the indices.  Python iterates
  the key sets in no specified order; the model takes the order of the dictionaries.
\<close>

definition only_in ::
  "bool \<Rightarrow> (string \<times> json) list \<Rightarrow> (string \<times> json) list \<Rightarrow> string list \<Rightarrow> JSPropDiff list" where
  "only_in a_side xs ys segs =
     map (\<lambda>kv. if a_side
               then \<lparr>diff_path = encode_path (segs @ [fst kv]), a_val = snd kv, b_val = JNull\<rparr>
               else \<lparr>diff_path = encode_path (segs @ [fst kv]), a_val = JNull, b_val = snd kv\<rparr>)
       (filter (\<lambda>kv. fst kv \<notin> fst ` set ys) xs)"

fun diff_vals :: "json \<Rightarrow> json \<Rightarrow> string list \<Rightarrow> JSPropDiff list"
  and diff_shared :: "(string \<times> json) list \<Rightarrow> (string \<times> json) list \<Rightarrow> string list \<Rightarrow> JSPropDiff list"
  and diff_elems :: "json list \<Rightarrow> json list \<Rightarrow> nat \<Rightarrow> string list \<Rightarrow> JSPropDiff list" where
  "diff_vals (JObj a) vb segs =
     (case vb of
        JObj b \<Rightarrow> only_in True a b segs @ only_in False b a segs @ diff_shared a b segs
      | _ \<Rightarrow> [\<lparr>diff_path = encode_path segs, a_val = JObj a, b_val = vb\<rparr>])"
| "diff_vals (JList a) vb segs =
     (case vb of
        JList b \<Rightarrow>
          if length a \<noteq> length b
          then [\<lparr>diff_path = encode_path segs, a_val = JList a, b_val = JList b\<rparr>]
          else diff_elems a b 0 segs
      | _ \<Rightarrow> [\<lparr>diff_path = encode_path segs, a_val = JList a, b_val = vb\<rparr>])"
| "diff_vals va vb segs =
     (if \<not> py_eq va vb
      then [\<lparr>diff_path = encode_path segs, a_val = va, b_val = vb\<rparr>] else [])"
| "diff_shared [] b segs = []"
| "diff_shared (kv # a) b segs =
     (case map_of b (fst kv) of
        None \<Rightarrow> []
      | Some v \<Rightarrow> diff_vals (snd kv) v (segs @ [fst kv]))
     @ diff_shared a b segs"
| "diff_elems [] b i segs = []"
| "diff_elems (x # a) b i segs =
     (case b of
        [] \<Rightarrow> []
      | y # b' \<Rightarrow> diff_vals x y (segs @ [nat_str i]) @ diff_elems a b' (Suc i) segs)"

definition diff_objs ::
  "(string \<times> json) list \<Rightarrow> (string \<times> json) list \<Rightarrow> string list \<Rightarrow> JSPropDiff list" where
  "diff_objs a b segs = only_in True a b segs @ only_in False b a segs @ diff_shared a b segs"

definition diff_list :: "json list \<Rightarrow> json list \<Rightarrow> string list \<Rightarrow> JSPropDiff list" where
  "diff_list a b segs =
     (if length a \<noteq> length b
      then [\<lparr>diff_path = encode_path segs, a_val = JList a, b_val = JList b\<rparr>]
      else diff_elems a b 0 segs)"

section \<open>Properties of the text-record engine\<close>

lemma insort_key_pair_sorted:
  fixes f :: "'a \<Rightarrow> 'b::linorder" and g :: "'a \<Rightarrow> 'c::linorder"
  assumes "sorted (map (\<lambda>x. (f x, g x)) L)" and "\<forall>y\<in>set L. g z \<le> g y"
  shows "sorted (map (\<lambda>x. (f x, g x)) (insort_key f z L))"
  using assms
proof (induction L)
  case Nil
  then show ?case by simp
next
  case (Cons y L)
  show ?case
  proof (cases "f z \<le> f y")
    case True
    have "\<forall>w\<in>set (y # L). (f z, g z) \<le> (f w, g w)"
    proof
      fix w assume w: "w \<in> set (y # L)"
      have "(f y, g y) \<le> (f w, g w)" using Cons.prems(1) w by auto
      hence "f y \<le> f w" by (auto simp: less_eq_prod_def)
      hence "f z \<le> f w" using True by simp
      moreover have "g z \<le> g w" using Cons.prems(2) w by blast
      ultimately show "(f z, g z) \<le> (f w, g w)" by (auto simp: less_eq_prod_def)
    qed
    then show ?thesis using True Cons.prems(1) by simp
  next
    case False
    hence lt: "f y < f z" by simp
    have "sorted (map (\<lambda>x. (f x, g x)) (insort_key f z L))"
      using Cons by simp
    moreover have "\<forall>w\<in>set (insort_key f z L). (f y, g y) \<le> (f w, g w)"
      using Cons.prems(1) lt by (auto simp: set_insort_key less_eq_prod_def)
    ultimately show ?thesis using False by simp
  qed
qed

lemma sort_key_pair_sorted:
  fixes f :: "'a \<Rightarrow> 'b::linorder" and g :: "'a \<Rightarrow> 'c::linorder"
  shows "sorted (map g zs) \<Longrightarrow> sorted (map (\<lambda>x. (f x, g x)) (sort_key f zs))"
proof (induction zs)
  case Nil
  then show ?case by simp
next
  case (Cons z zs)
  then show ?case by (auto intro!: insort_key_pair_sorted)
qed

lemma two_pass_sort:
  fixes f :: "'a \<Rightarrow> 'b::linorder" and g :: "'a \<Rightarrow> 'c::linorder"
  shows "sort_key f (sort_key g xs) = sort_key (\<lambda>x. (f x, g x)) xs"
proof (rule properties_for_sort_key [symmetric])
  show "mset (sort_key f (sort_key g xs)) = mset xs" by simp
next
  fix k assume "k \<in> set (sort_key f (sort_key g xs))"
  have "filter (\<lambda>x. (f k, g k) = (f x, g x)) (sort_key f (sort_key g xs))
      = filter (\<lambda>x. g x = g k) (filter (\<lambda>x. f x = f k) (sort_key f (sort_key g xs)))"
    by (auto intro: filter_cong)
  also have "\<dots> = filter (\<lambda>x. g x = g k) (filter (\<lambda>x. f x = f k) (sort_key g xs))"
    by (simp only: sort_key_stable)
  also have "\<dots> = filter (\<lambda>x. f x = f k) (filter (\<lambda>x. g x = g k) (sort_key g xs))"
    by (auto intro: filter_cong)
  also have "\<dots> = filter (\<lambda>x. f x = f k) (filter (\<lambda>x. g x = g k) xs)"
    by (simp only: sort_key_stable)
  also have "\<dots> = filter (\<lambda>x. (f k, g k) = (f x, g x)) xs"
    by (auto intro: filter_cong)
  finally show "filter (\<lambda>x. (f k, g k) = (f x, g x)) (sort_key f (sort_key g xs))
      = filter (\<lambda>x. (f k, g k) = (f x, g x)) xs" .
next
  show "sorted (map (\<lambda>x. (f x, g x)) (sort_key f (sort_key g xs)))"
    by (rule sort_key_pair_sorted) simp
qed

lemma two_pass_sort_idem:
  fixes f :: "'a \<Rightarrow> 'b::linorder" and g :: "'a \<Rightarrow> 'c::linorder"
  shows "sort_key f (sort_key g (sort_key f (sort_key g xs))) = sort_key f (sort_key g xs)"
proof -
  let ?L = "sort_key f (sort_key g xs)"
  have L: "?L = sort_key (\<lambda>x. (f x, g x)) xs" by (rule two_pass_sort)
  have "sort_key f (sort_key g ?L) = sort_key (\<lambda>x. (f x, g x)) ?L" by (rule two_pass_sort)
  also have "\<dots> = ?L" by (rule sort_key_id_if_sorted) (simp add: L)
  finally show ?thesis .
qed

lemma sort_params_idem: "sort_params (sort_params p) = sort_params p"
  by (simp add: sort_params_def two_pass_sort_idem)

lemma sort_params_keys [simp]:
  "prop_name (sort_params p) = prop_name p" "prop_value (sort_params p) = prop_value p"
  by (simp_all add: sort_params_def)

lemma sort_props_pair: "sort_props ps = sort_key (\<lambda>p. (prop_name p, prop_value p)) ps"
  by (simp add: sort_props_def two_pass_sort)

lemma sort_props_fix:
  "sorted (map (\<lambda>p. (prop_name p, prop_value p)) ps) \<Longrightarrow> sort_props ps = ps"
  by (simp add: sort_props_pair sort_key_id_if_sorted)

lemma sorted_sort_props: "sorted (map (\<lambda>p. (prop_name p, prop_value p)) (sort_props ps))"
  by (simp add: sort_props_pair)

lemma set_sort_props [simp]: "set (sort_props ps) = set ps" "length (sort_props ps) = length ps"
  by (simp_all add: sort_props_pair)

lemma map_sort_params_fix:
  "\<forall>p\<in>set ps. sort_params p = p \<Longrightarrow> map sort_params ps = ps"
  by (induction ps) auto

lemma canon_fix:
  assumes "\<forall>p\<in>set ps. sort_params p = p"
    and "sorted (map (\<lambda>p. (prop_name p, prop_value p)) ps)"
  shows "sort_props (map sort_params ps) = ps"
  using assms by (simp add: map_sort_params_fix sort_props_fix)

lemma canon_props:
  "\<forall>p\<in>set (sort_props (map sort_params ps)). sort_params p = p"
  "sorted (map (\<lambda>p. (prop_name p, prop_value p)) (sort_props (map sort_params ps)))"
  by (auto simp: sort_params_idem sorted_sort_props)

lemma sorted_mid: "sorted (map f xs) \<Longrightarrow> sorted (map f (butlast (tl xs)))"
proof -
  assume "sorted (map f xs)"
  hence "sorted (butlast (tl (map f xs)))"
    by (cases "tl (map f xs) = []") (simp_all add: sorted_butlast sorted_tl)
  thus ?thesis by (simp add: map_butlast map_tl)
qed

lemma splice_wrapper: "length xs > 2 \<Longrightarrow> hd xs # butlast (tl xs) @ [last xs] = xs"
proof (cases xs)
  case Nil
  assume "length xs > 2" with Nil show ?thesis by simp
next
  case (Cons x ys)
  assume "length xs > 2"
  with Cons have "ys \<noteq> []" by auto
  then show ?thesis using Cons by simp
qed

text \<open>
  Claim C7.  Canonicalization of a record is idempotent: normalizing an already normalized
  list of properties returns it unchanged.  This holds for every list of properties, on
  both branches (wrapper spliced off or not).
\<close>

theorem normalize_vcard_idempotent:
  "normalize_vcard (normalize_vcard R) = normalize_vcard R"
proof (cases "length R > 2 \<and> prop_name (hd R) = ''BEGIN'' \<and> prop_name (last R) = ''END''")
  case True
  define M where "M = sort_props (map sort_params (butlast (tl R)))"
  have out: "normalize_vcard R = [hd R] @ M @ [last R]"
    using True by (simp add: normalize_vcard_def M_def)
  have len: "length M > 0" using True by (simp add: M_def)
  have fx: "sort_props (map sort_params M) = M"
    unfolding M_def by (rule canon_fix) (rule canon_props)+
  have "normalize_vcard ([hd R] @ M @ [last R]) = [hd R] @ M @ [last R]"
    using True len fx by (simp add: normalize_vcard_def butlast_append)
  then show ?thesis by (simp add: out)
next
  case False
  define S where "S = sort_props (map sort_params R)"
  have out: "normalize_vcard R = S" by (simp only: normalize_vcard_def S_def False if_False)
  have p: "\<forall>p\<in>set S. sort_params p = p" and s: "sorted (map (\<lambda>p. (prop_name p, prop_value p)) S)"
    unfolding S_def by (rule canon_props)+
  show ?thesis
  proof (cases "length S > 2 \<and> prop_name (hd S) = ''BEGIN'' \<and> prop_name (last S) = ''END''")
    case True
    have "\<forall>p\<in>set (butlast (tl S)). sort_params p = p"
    proof
      fix q assume "q \<in> set (butlast (tl S))"
      hence "q \<in> set (tl S)" by (rule in_set_butlastD)
      hence "q \<in> set S" by (cases S) auto
      thus "sort_params q = q" using p by blast
    qed
    moreover have "sorted (map (\<lambda>p. (prop_name p, prop_value p)) (butlast (tl S)))"
      using s by (rule sorted_mid)
    ultimately have "sort_props (map sort_params (butlast (tl S))) = butlast (tl S)"
      by (rule canon_fix)
    moreover have "[hd S] @ butlast (tl S) @ [last S] = S"
      using True by (simp add: splice_wrapper)
    ultimately have "normalize_vcard S = S"
      using True by (simp add: normalize_vcard_def [of S])
    then show ?thesis by (simp only: out)
  next
    case F2: False
    have "sort_props (map sort_params S) = S" using p s by (rule canon_fix)
    then show ?thesis unfolding out by (simp only: normalize_vcard_def [of S] F2 if_False)
  qed
qed

lemmas char_defs = CR_def LF_def TAB_def BSL_def DQ_def crlf_def

text \<open>
  Claim C8.  \<open>ComponentsValue.match\<close> splits the observed string at every \<open>;\<close> that is not
  preceded by a backslash, fails when the number of pieces differs from the number of slots,
  and otherwise requires equality for a string slot and set equality of the piece split at
  unescaped \<open>,\<close> for a set slot.  The three examples of the specification follow.
\<close>

theorem ComponentsValue_match_spec:
  "(ComponentsValue_match comps val \<longleftrightarrow>
      (let subcomps = split_unescaped CHR '';'' None [] val in
       length subcomps = length comps \<and>
       (\<forall>i < length comps.
          case comps ! i of
            CompStr want \<Rightarrow> subcomps ! i = want
          | CompSet want \<Rightarrow> set (split_unescaped CHR '','' None [] (subcomps ! i)) = set want)))
   \<and> ComponentsValue_match [CompStr ''a'', CompSet [''x'', ''y'']] ''a;y,x''
   \<and> \<not> ComponentsValue_match [CompStr ''a'', CompSet [''x'', ''y'']] ''a;y,x,z''
   \<and> \<not> ComponentsValue_match [CompStr ''a'', CompSet [''x'', ''y'']] ''a''"
proof -
  have slot: "comp_ok c s =
      (case c of CompStr want \<Rightarrow> s = want
       | CompSet want \<Rightarrow> set (split_unescaped CHR '','' None [] s) = set want)" for c s
    by (cases c) auto
  have gen: "ComponentsValue_match comps val \<longleftrightarrow>
      (let subcomps = split_unescaped CHR '';'' None [] val in
       length subcomps = length comps \<and>
       (\<forall>i < length comps.
          case comps ! i of
            CompStr want \<Rightarrow> subcomps ! i = want
          | CompSet want \<Rightarrow> set (split_unescaped CHR '','' None [] (subcomps ! i)) = set want))"
    by (auto simp: ComponentsValue_match_def Let_def list_all_length slot)
  have e1: "ComponentsValue_match [CompStr ''a'', CompSet [''x'', ''y'']] ''a;y,x''"
    by (simp add: ComponentsValue_match_def BSL_def insert_commute)
  have ne: "{''y'', ''x'', ''z''} \<noteq> {''x'', ''y''}"
  proof
    assume eq: "{''y'', ''x'', ''z''} = {''x'', ''y''}"
    have "''z'' \<in> {''y'', ''x'', ''z''}" by simp
    hence "''z'' \<in> {''x'', ''y''}" by (simp only: eq)
    thus False by simp
  qed
  have e2: "\<not> ComponentsValue_match [CompStr ''a'', CompSet [''x'', ''y'']] ''a;y,x,z''"
    by (simp add: ComponentsValue_match_def BSL_def ne)
  have e3: "\<not> ComponentsValue_match [CompStr ''a'', CompSet [''x'', ''y'']] ''a''"
    by (simp add: ComponentsValue_match_def BSL_def)
  from gen e1 e2 e3 show ?thesis by blast
qed

theorem ComponentsValue_match_spec_witness:
  "ComponentsValue_match [CompStr ''n'', CompSet [''p'', ''q'']] ''n;q,p''"
  using ComponentsValue_match_spec [of "[CompStr ''n'', CompSet [''p'', ''q'']]" "''n;q,p''"]
  by (simp add: BSL_def less_Suc_eq insert_commute)

text \<open>
  Claim C9.  A property with more than one ALTID parameter is rejected by every candidate,
  whether or not the candidate declares an \<open>AltIdMatch\<close>, and the call leaves both binding
  dictionaries as they were.
\<close>

theorem multiple_altid_never_matches:
  assumes "length (filter (\<lambda>param. param_name param = ''ALTID'') (prop_params prop)) > 1"
  shows "PropMatch_match self prop groups altids = (False, groups, altids)"
  using assms by (simp add: PropMatch_match_def Let_def split: option.splits)

theorem multiple_altid_never_matches_witness:
  "PropMatch_match
     \<lparr>pm_name = ''TEL'', pm_value = AnyValue, pm_params = [], pm_mandatory = True,
      pm_alt_id = None, pm_group = None\<rparr>
     \<lparr>prop_group = None, prop_name = ''TEL'',
      prop_params = [\<lparr>param_name = ''ALTID'', param_value = ''1''\<rparr>,
                     \<lparr>param_name = ''ALTID'', param_value = ''2''\<rparr>],
      prop_value = ''x''\<rparr> [] [] = (False, [], [])"
  by (rule multiple_altid_never_matches) simp

text \<open>
  Claim C10.  For a payload that parses, \<open>match_vcard\<close> raises \<open>ValueError\<close> exactly when the
  record is not a BEGIN property, at least one property, and an END property; neither a
  \<open>VCardMatchError\<close> nor a \<open>ParseError\<close> is raised for such a record.
\<close>

theorem match_vcard_requires_wrapper:
  assumes "parse vcard = Inr props"
  shows "match_vcard vcard want_matches defaults = Inl ValueError \<longleftrightarrow>
         \<not> (length props > 2 \<and> prop_name (hd props) = ''BEGIN'' \<and> prop_name (last props) = ''END'')"
  using assms by (auto simp: match_vcard_def Let_def)

lemma parse_unwrapped: "parse (''FN:x'' @ crlf) = Inr [\<lparr>prop_group = None, prop_name = ''FN'', prop_params = [], prop_value = ''x''\<rparr>]"
  by (simp add: parse_def char_defs fromstr_def namechar_def parse_tail_def upper_def upper_char_def Let_def)

theorem match_vcard_requires_wrapper_witness:
  "match_vcard (''FN:x'' @ crlf) [] default_matches = Inl ValueError"
  using match_vcard_requires_wrapper [OF parse_unwrapped, of "[]" default_matches] by simp

text \<open>
  Claim C5.  A line whose name runs to the end of the line, or whose parameters do, has no
  \<open>:\<close> terminator; \<open>Prop.fromstr\<close> then indexes past the end of the string (\<open>s[m.end()]\<close>,
  \<open>s[0]\<close>) and raises \<open>IndexError\<close>, not \<open>ParseError\<close>.
\<close>

theorem parse_missing_terminator_IndexError:
  "fromstr ''FOO'' = Inl IndexError
   \<and> fromstr ''FOO;A=b'' = Inl IndexError
   \<and> parse (''BEGIN:VCARD'' @ crlf @ ''FOO'' @ crlf @ ''END:VCARD'' @ crlf) = Inl IndexError"
  by (simp add: parse_def char_defs fromstr_def namechar_def parse_tail_def upper_def upper_char_def Let_def match_param_def match_param_value_def)

subsection \<open>The ALTID binding dictionary\<close>

lemma update_fresh: "k \<notin> fst ` set al \<Longrightarrow> AList.update k v al = al @ [(k, v)]"
  by (induction al) auto

lemma map_of_None_fresh: "map_of al k = None \<Longrightarrow> k \<notin> fst ` set al"
  by (simp add: map_of_eq_None_iff)

lemma distinct_snd_inj:
  assumes "distinct (map snd al)" "(k, x) \<in> set al" "(k', x) \<in> set al"
  shows "k = k'"
proof -
  have "inj_on snd (set al)" using assms(1) by (simp add: distinct_map)
  from inj_onD [OF this _ assms(2) assms(3)] show ?thesis by simp
qed

lemma match_altid_accept:
  "match_altid (Some k) [p] a = (True, a') \<Longrightarrow> map_of a' (altid_id k) = Some (param_value p)"
  by (auto simp: match_altid_def update_conv' split: option.splits if_splits)

lemma match_altid_mono:
  "map_of a k' = Some x \<Longrightarrow> map_of (snd (match_altid alt ps a)) k' = Some x"
  by (auto simp: match_altid_def update_conv' split: option.splits if_splits)

lemma match_altid_bij:
  "bijective_table a \<Longrightarrow> bijective_table (snd (match_altid alt ps a))"
  by (auto simp: match_altid_def bijective_table_def update_fresh map_of_eq_None_iff
           split: option.splits if_splits)

lemma match_altid_rule_b:
  "map_of a (altid_id k) = Some bound \<Longrightarrow> bound \<noteq> param_value p \<Longrightarrow>
   match_altid (Some k) [p] a = (False, a)"
  by (simp add: match_altid_def)

lemma match_altid_rule_c:
  "map_of a (altid_id k) = None \<Longrightarrow> param_value p \<in> snd ` set a \<Longrightarrow>
   match_altid (Some k) [p] a = (False, a)"
  by (simp add: match_altid_def)

lemma match_altid_other_id:
  assumes bij: "bijective_table a" and b1: "map_of a k1 = Some (param_value p)"
    and ne: "altid_id k \<noteq> k1"
  shows "match_altid (Some k) [p] a = (False, a)"
proof (cases "map_of a (altid_id k)")
  case None
  have "(k1, param_value p) \<in> set a" using b1 by (rule map_of_SomeD)
  hence "param_value p \<in> snd ` set a" by force
  with None show ?thesis by (rule match_altid_rule_c)
next
  case (Some bound)
  have m1: "(k1, param_value p) \<in> set a" using b1 by (rule map_of_SomeD)
  have m2: "(altid_id k, bound) \<in> set a" using Some by (rule map_of_SomeD)
  have "bound \<noteq> param_value p"
  proof
    assume "bound = param_value p"
    with m2 have "(altid_id k, param_value p) \<in> set a" by simp
    with bij m1 have "altid_id k = k1"
      unfolding bijective_table_def by (meson distinct_snd_inj)
    with ne show False by simp
  qed
  with Some show ?thesis by (rule match_altid_rule_b)
qed

lemma PropMatch_match_cases:
  assumes "PropMatch_match pm prop g a = (ok, g', a')"
  shows "(\<not> ok \<and> a' = a) \<or>
         (length (altid_params_of prop) \<le> 1 \<and>
          a' = snd (match_altid (pm_alt_id pm) (altid_params_of prop) a) \<and>
          (ok \<longrightarrow> fst (match_altid (pm_alt_id pm) (altid_params_of prop) a)))"
  using assms
  by (auto simp: PropMatch_match_def altid_params_of_def Let_def
           split: option.splits if_splits prod.splits)

lemma PropMatch_match_altid_reject:
  assumes "match_altid (pm_alt_id pm) (altid_params_of prop) a = (False, a)"
  shows "PropMatch_match pm prop g a = (False, g, a)"
  using assms
  by (auto simp: PropMatch_match_def altid_params_of_def Let_def
           split: option.splits if_splits prod.splits)


lemma PropMatch_match_mono:
  assumes "PropMatch_match pm prop g a = (ok, g', a')" "map_of a k' = Some x"
  shows "map_of a' k' = Some x"
  using PropMatch_match_cases [OF assms(1)] assms(2) match_altid_mono by auto

lemma PropMatch_match_bij:
  assumes "PropMatch_match pm prop g a = (ok, g', a')" "bijective_table a"
  shows "bijective_table a'"
  using PropMatch_match_cases [OF assms(1)] assms(2) match_altid_bij by auto

lemma PropMatch_match_accept:
  assumes "PropMatch_match pm prop g a = (True, g', a')"
    and "altid_params_of prop = [p]" and "pm_alt_id pm = Some k"
  shows "map_of a' (altid_id k) = Some (param_value p)"
proof -
  from PropMatch_match_cases [OF assms(1)]
  have "a' = snd (match_altid (Some k) [p] a)" and "fst (match_altid (Some k) [p] a)"
    using assms(2,3) by auto
  hence "match_altid (Some k) [p] a = (True, a')" by (simp add: prod_eq_iff)
  thus ?thesis by (rule match_altid_accept)
qed

lemma PropMatch_match_other_id:
  assumes "bijective_table a" "map_of a k1 = Some (param_value p)"
    and "altid_params_of prop = [p]" and "pm_alt_id pm = Some k" and "altid_id k \<noteq> k1"
  shows "PropMatch_match pm prop g a = (False, g, a)"
proof (rule PropMatch_match_altid_reject)
  show "match_altid (pm_alt_id pm) (altid_params_of prop) a = (False, a)"
    using match_altid_other_id [OF assms(1,2,5)] assms(3,4) by simp
qed

lemma scan_matches_mono:
  "scan_matches pms prop g a = (found, g', a') \<Longrightarrow> map_of a k' = Some x \<Longrightarrow>
   map_of a' k' = Some x"
proof (induction pms arbitrary: g a found g' a')
  case Nil
  then show ?case by simp
next
  case (Cons pm pms)
  obtain ok g1 a1 where m: "PropMatch_match pm prop g a = (ok, g1, a1)"
    by (cases "PropMatch_match pm prop g a") auto
  have a1: "map_of a1 k' = Some x" using PropMatch_match_mono [OF m Cons.prems(2)] .
  show ?case
  proof (cases ok)
    case True
    with Cons.prems(1) m have "a' = a1" by simp
    with a1 show ?thesis by simp
  next
    case False
    obtain f2 g2 a2 where s: "scan_matches pms prop g1 a1 = (f2, g2, a2)"
      by (cases "scan_matches pms prop g1 a1") auto
    with Cons.prems(1) m False have "a' = a2" by simp
    with Cons.IH [OF s a1] show ?thesis by simp
  qed
qed

lemma scan_matches_bij:
  "scan_matches pms prop g a = (found, g', a') \<Longrightarrow> bijective_table a \<Longrightarrow> bijective_table a'"
proof (induction pms arbitrary: g a found g' a')
  case Nil
  then show ?case by simp
next
  case (Cons pm pms)
  obtain ok g1 a1 where m: "PropMatch_match pm prop g a = (ok, g1, a1)"
    by (cases "PropMatch_match pm prop g a") auto
  have a1: "bijective_table a1" using PropMatch_match_bij [OF m Cons.prems(2)] .
  show ?case
  proof (cases ok)
    case True
    with Cons.prems(1) m have "a' = a1" by simp
    with a1 show ?thesis by simp
  next
    case False
    obtain f2 g2 a2 where s: "scan_matches pms prop g1 a1 = (f2, g2, a2)"
      by (cases "scan_matches pms prop g1 a1") auto
    with Cons.prems(1) m False have "a' = a2" by simp
    with Cons.IH [OF s a1] show ?thesis by simp
  qed
qed

lemma scan_matches_accept:
  "scan_matches pms prop g a = (Some pos, g', a') \<Longrightarrow> altid_params_of prop = [p] \<Longrightarrow>
   pos < length pms \<and>
   (\<forall>k. pm_alt_id (pms ! pos) = Some k \<longrightarrow> map_of a' (altid_id k) = Some (param_value p))"
proof (induction pms arbitrary: g a pos g' a')
  case Nil
  then show ?case by simp
next
  case (Cons pm pms)
  obtain ok g1 a1 where m: "PropMatch_match pm prop g a = (ok, g1, a1)"
    by (cases "PropMatch_match pm prop g a") auto
  show ?case
  proof (cases ok)
    case True
    with Cons.prems(1) m have e: "pos = 0" "a' = a1" by simp_all
    from m True have "PropMatch_match pm prop g a = (True, g1, a1)" by simp
    from PropMatch_match_accept [OF this Cons.prems(2)] e show ?thesis by simp
  next
    case False
    obtain f2 g2 a2 where s: "scan_matches pms prop g1 a1 = (f2, g2, a2)"
      by (cases "scan_matches pms prop g1 a1") auto
    with Cons.prems(1) m False obtain pos' where
      e: "f2 = Some pos'" "pos = Suc pos'" "a' = a2" "g' = g2" by auto
    from s e have "scan_matches pms prop g1 a1 = (Some pos', g2, a2)" by simp
    from Cons.IH [OF this Cons.prems(2)] e show ?thesis by simp
  qed
qed

lemma scan_matches_other_ids:
  assumes "bijective_table a" "map_of a k1 = Some (param_value p)" "altid_params_of prop = [p]"
    and "\<forall>pm\<in>set pms. \<exists>k. pm_alt_id pm = Some k \<and> altid_id k \<noteq> k1"
  shows "scan_matches pms prop g a = (None, g, a)"
  using assms(4)
proof (induction pms)
  case Nil
  then show ?case by simp
next
  case (Cons pm pms)
  then obtain k where k: "pm_alt_id pm = Some k" "altid_id k \<noteq> k1" by auto
  have "PropMatch_match pm prop g a = (False, g, a)"
    using PropMatch_match_other_id [OF assms(1,2,3) k] .
  moreover have "scan_matches pms prop g a = (None, g, a)" using Cons by simp
  ultimately show ?case by simp
qed

lemma match_prop_errors:
  "match_errors st \<noteq> [] \<Longrightarrow> match_errors (match_prop prop st) \<noteq> []"
  by (auto simp: match_prop_def Let_def split: option.splits prod.splits)

lemma match_props_errors:
  "match_errors st \<noteq> [] \<Longrightarrow> match_errors (match_props props st) \<noteq> []"
  by (induction props arbitrary: st) (auto simp: match_prop_errors)

lemma match_prop_bij:
  "bijective_table (altid_by_id st) \<Longrightarrow> bijective_table (altid_by_id (match_prop prop st))"
  by (auto simp: match_prop_def Let_def split: option.splits prod.splits
           dest: scan_matches_bij)

lemma match_props_bij:
  "bijective_table (altid_by_id st) \<Longrightarrow> bijective_table (altid_by_id (match_props props st))"
  by (induction props arbitrary: st) (auto simp: match_prop_bij)

lemma match_prop_mono:
  "map_of (altid_by_id st) k = Some x \<Longrightarrow> map_of (altid_by_id (match_prop prop st)) k = Some x"
  by (auto simp: match_prop_def Let_def split: option.splits prod.splits
           dest: scan_matches_mono)

lemma match_props_mono:
  "map_of (altid_by_id st) k = Some x \<Longrightarrow> map_of (altid_by_id (match_props props st)) k = Some x"
  by (induction props arbitrary: st) (auto simp: match_prop_mono)

lemma set_del_at:
  assumes "distinct ms" "pos < length ms"
  shows "set (del_at pos ms) = set ms - {ms ! pos}"
proof -
  have ms: "ms = take pos ms @ ms ! pos # drop (Suc pos) ms"
    using assms(2) by (rule id_take_nth_drop)
  have "distinct (take pos ms @ ms ! pos # drop (Suc pos) ms)" using assms(1) ms by simp
  hence "ms ! pos \<notin> set (take pos ms) \<union> set (drop (Suc pos) ms)" by auto
  moreover have "set ms = set (take pos ms) \<union> {ms ! pos} \<union> set (drop (Suc pos) ms)"
    by (subst ms) auto
  ultimately show ?thesis by (auto simp: del_at_def)
qed

lemma map_of_matches_append:
  "map_of (matches_append d pm) n =
     (if pm_name pm = n
      then Some ((case map_of d n of None \<Rightarrow> [] | Some ms \<Rightarrow> ms) @ [pm])
      else map_of d n)"
  by (simp add: matches_append_def update_conv')

lemma foldl_matches_append:
  "map_of (foldl matches_append d pms) n =
     (if filter (\<lambda>pm. pm_name pm = n) pms = [] then map_of d n
      else Some ((case map_of d n of None \<Rightarrow> [] | Some ms \<Rightarrow> ms)
                 @ filter (\<lambda>pm. pm_name pm = n) pms))"
proof (induction pms arbitrary: d)
  case Nil
  then show ?case by simp
next
  case (Cons pm pms)
  have "map_of (foldl matches_append d (pm # pms)) n
          = map_of (foldl matches_append (matches_append d pm) pms) n" by simp
  also have "\<dots> =
     (if filter (\<lambda>pm. pm_name pm = n) pms = [] then map_of (matches_append d pm) n
      else Some ((case map_of (matches_append d pm) n of None \<Rightarrow> [] | Some ms \<Rightarrow> ms)
                 @ filter (\<lambda>pm. pm_name pm = n) pms))"
    by (rule Cons.IH)
  also have "\<dots> =
     (if filter (\<lambda>pm. pm_name pm = n) (pm # pms) = [] then map_of d n
      else Some ((case map_of d n of None \<Rightarrow> [] | Some ms \<Rightarrow> ms)
                 @ filter (\<lambda>pm. pm_name pm = n) (pm # pms)))"
    by (simp add: map_of_matches_append split: option.splits)
  finally show ?case .
qed

lemma foldl_defaults_keep:
  "n \<in> W \<Longrightarrow>
   map_of (foldl (\<lambda>d pm. if pm_name pm \<notin> W then matches_append d pm else d) d defaults) n
     = map_of d n"
proof (induction defaults arbitrary: d)
  case Nil
  then show ?case by simp
next
  case (Cons pm pms)
  have "map_of (if pm_name pm \<notin> W then matches_append d pm else d) n = map_of d n"
    using Cons.prems by (auto simp: map_of_matches_append)
  with Cons.IH [OF Cons.prems] show ?case by simp
qed

lemma initial_matches_wanted:
  assumes "n \<in> set (map pm_name want_matches)"
  shows "map_of (initial_matches want_matches defaults) n
           = Some (filter (\<lambda>pm. pm_name pm = n) want_matches)"
proof -
  have ne: "filter (\<lambda>pm. pm_name pm = n) want_matches \<noteq> []"
    using assms by (auto simp: filter_empty_conv)
  show ?thesis
    unfolding initial_matches_def
    by (simp only: foldl_defaults_keep [OF assms] foldl_matches_append)
       (simp add: ne)
qed

lemma two_props_same_altid:
  assumes T: "\<And>n ms. n = prop_name p1 \<or> n = prop_name p2 \<Longrightarrow> map_of T n = Some ms \<Longrightarrow>
                distinct ms \<and> (\<forall>pm\<in>set ms. pm_name pm = n \<and> (pm = pm1 \<or> pm = pm2))"
    and ids: "pm_alt_id pm1 = Some k1" "pm_alt_id pm2 = Some k2" "altid_id k1 \<noteq> altid_id k2"
    and p1: "altid_params_of p1 = [x1]" and p2: "altid_params_of p2 = [x2]"
    and same: "param_value x1 = param_value x2"
  shows "match_errors (match_props [p1, p2]
           \<lparr>matches_by_name = T, group_by_id = [], altid_by_id = [], match_errors = []\<rparr>) \<noteq> []"
proof -
  let ?st = "\<lparr>matches_by_name = T, group_by_id = [], altid_by_id = [], match_errors = []\<rparr>"
  have run: "match_props [p1, p2] ?st = match_prop p2 (match_prop p1 ?st)" by simp
  show ?thesis
  proof (cases "map_of T (prop_name p1)")
    case None
    hence "match_errors (match_prop p1 ?st) \<noteq> []" by (simp add: match_prop_def)
    thus ?thesis unfolding run by (rule match_prop_errors)
  next
    case (Some ms)
    obtain found g a where sc: "scan_matches ms p1 [] [] = (found, g, a)"
      by (cases "scan_matches ms p1 [] []") auto
    show ?thesis
    proof (cases found)
      case None
      hence "match_errors (match_prop p1 ?st) \<noteq> []"
        using Some sc by (simp add: match_prop_def)
      thus ?thesis unfolding run by (rule match_prop_errors)
    next
      case (Some pos)
      note found = this
      from sc found have sc': "scan_matches ms p1 [] [] = (Some pos, g, a)" by simp
      from scan_matches_accept [OF sc' p1]
      have pos: "pos < length ms"
        and acc: "\<And>k. pm_alt_id (ms ! pos) = Some k \<Longrightarrow> map_of a (altid_id k) = Some (param_value x1)"
        by auto
      have bij: "bijective_table a"
        using scan_matches_bij [OF sc'] by (simp add: bijective_table_def)
      define pm where "pm = ms ! pos"
      have pm_in: "pm \<in> set ms" using pos by (simp add: pm_def)
      have T1: "distinct ms \<and> (\<forall>pm\<in>set ms. pm_name pm = prop_name p1 \<and> (pm = pm1 \<or> pm = pm2))"
        using T [of "prop_name p1" ms] \<open>map_of T (prop_name p1) = Some ms\<close> by simp
      from T1 pm_in
      have dist: "distinct ms" and pm_name: "pm_name pm = prop_name p1"
        and pm12: "pm = pm1 \<or> pm = pm2" by auto
      obtain k where k: "pm_alt_id pm = Some k" using pm12 ids by auto
      have bound: "map_of a (altid_id k) = Some (param_value x2)"
        using acc [of k] k same by (simp add: pm_def)
      define T' where "T' = (if del_at pos ms \<noteq> []
                             then AList.update (pm_name pm) (del_at pos ms) T
                             else AList.delete (pm_name pm) T)"
      define st1 where "st1 = \<lparr>matches_by_name = T', group_by_id = g, altid_by_id = a,
                                match_errors = []\<rparr>"
      have step1: "match_prop p1 ?st = st1"
        using \<open>map_of T (prop_name p1) = Some ms\<close> sc'
        by (simp add: match_prop_def Let_def st1_def T'_def pm_def)
      have others: "\<forall>pm'\<in>set ms2. \<exists>k'. pm_alt_id pm' = Some k' \<and> altid_id k' \<noteq> altid_id k"
        if l2: "map_of T' (prop_name p2) = Some ms2" for ms2
      proof
        fix pm' assume in2: "pm' \<in> set ms2"
        have "pm' \<noteq> pm \<and> (pm' = pm1 \<or> pm' = pm2)"
        proof (cases "prop_name p2 = pm_name pm")
          case True
          with l2 have "ms2 = del_at pos ms"
            by (auto simp: T'_def update_conv' delete_conv' split: if_splits)
          with in2 have "pm' \<in> set ms - {pm}"
            using set_del_at [OF dist pos] by (simp add: pm_def)
          with T1 show ?thesis by auto
        next
          case False
          with l2 have "map_of T (prop_name p2) = Some ms2"
            by (auto simp: T'_def update_conv' delete_conv' split: if_splits)
          from T [of "prop_name p2" ms2] this in2
          have "pm_name pm' = prop_name p2" "pm' = pm1 \<or> pm' = pm2"
            by auto
          with False show ?thesis by auto
        qed
        with pm12 k ids show "\<exists>k'. pm_alt_id pm' = Some k' \<and> altid_id k' \<noteq> altid_id k"
          by auto
      qed
      have "match_errors (match_prop p2 st1) \<noteq> []"
      proof (cases "map_of T' (prop_name p2)")
        case None
        thus ?thesis by (simp add: match_prop_def st1_def)
      next
        case (Some ms2)
        have "scan_matches ms2 p2 g a = (None, g, a)"
          using scan_matches_other_ids [OF bij bound p2 others [OF Some]] .
        thus ?thesis using Some by (simp add: match_prop_def st1_def)
      qed
      thus ?thesis unfolding run step1 .
    qed
  qed
qed

lemma sort_props_two: "sort_props [x, y] = [x, y] \<or> sort_props [x, y] = [y, x]"
  by (simp add: sort_props_def)

lemma altid_params_of_sort_params:
  "altid_params_of q = [x] \<Longrightarrow> altid_params_of (sort_params q) = [x]"
  by (simp add: altid_params_of_def sort_params_def filter_sort)

lemma prop_name_sort_params: "prop_name (sort_params q) = prop_name q"
  by (simp add: sort_params_def)

lemma same_altid_run_fails:
  assumes parse: "parse vcard = Inr [b, q1, q2, e]"
    and wrap: "prop_name b = ''BEGIN''" "prop_name e = ''END''"
    and q1: "altid_params_of q1 = [x1]" and q2: "altid_params_of q2 = [x2]"
    and same: "param_value x1 = param_value x2"
    and ids: "pm_alt_id pm1 = Some k1" "pm_alt_id pm2 = Some k2" "altid_id k1 \<noteq> altid_id k2"
    and n1: "prop_name q1 \<in> {pm_name pm1, pm_name pm2}"
    and n2: "prop_name q2 \<in> {pm_name pm1, pm_name pm2}"
  shows "\<exists>errors. errors \<noteq> [] \<and>
           match_vcard vcard [pm1, pm2] defaults = Inl (VCardMatchError errors)"
proof -
  let ?T = "initial_matches [pm1, pm2] defaults"
  let ?s1 = "sort_params q1" and ?s2 = "sort_params q2"
  have ne: "pm1 \<noteq> pm2" using ids by auto
  have T: "distinct ms \<and> (\<forall>pm\<in>set ms. pm_name pm = n \<and> (pm = pm1 \<or> pm = pm2))"
    if "n = prop_name q1 \<or> n = prop_name q2" and l: "map_of ?T n = Some ms" for n ms
  proof -
    from that(1) n1 n2 have "n \<in> set (map pm_name [pm1, pm2])" by auto
    from initial_matches_wanted [OF this, of defaults] l
    have "ms = filter (\<lambda>pm. pm_name pm = n) [pm1, pm2]" by simp
    with ne show ?thesis by auto
  qed
  have err: "match_errors (match_props ps
               \<lparr>matches_by_name = ?T, group_by_id = [], altid_by_id = [], match_errors = []\<rparr>) \<noteq> []"
    if "ps = [?s1, ?s2] \<or> ps = [?s2, ?s1]" for ps
    using that
  proof
    assume "ps = [?s1, ?s2]"
    moreover have "match_errors (match_props [?s1, ?s2]
               \<lparr>matches_by_name = ?T, group_by_id = [], altid_by_id = [], match_errors = []\<rparr>) \<noteq> []"
      by (rule two_props_same_altid [OF _ ids altid_params_of_sort_params [OF q1]
            altid_params_of_sort_params [OF q2] same])
         (rule T, simp_all add: prop_name_sort_params)
    ultimately show ?thesis by simp
  next
    assume "ps = [?s2, ?s1]"
    moreover have "match_errors (match_props [?s2, ?s1]
               \<lparr>matches_by_name = ?T, group_by_id = [], altid_by_id = [], match_errors = []\<rparr>) \<noteq> []"
      by (rule two_props_same_altid [OF _ ids altid_params_of_sort_params [OF q2]
            altid_params_of_sort_params [OF q1] same [symmetric]])
         (rule T, auto simp: prop_name_sort_params)
    ultimately show ?thesis by simp
  qed
  have mid: "butlast (tl (normalize_vcard [b, q1, q2, e])) = sort_props [?s1, ?s2]"
    using wrap by (simp add: normalize_vcard_def butlast_append)
  have "match_errors (match_props (butlast (tl (normalize_vcard [b, q1, q2, e])))
               \<lparr>matches_by_name = ?T, group_by_id = [], altid_by_id = [], match_errors = []\<rparr>) \<noteq> []"
    unfolding mid by (rule err) (rule sort_props_two)
  then show ?thesis
    using parse wrap by (simp add: match_vcard_def Let_def)
qed

text \<open>
  Claim C1.  Within one run of \<open>match_vcard\<close> the ALTID dictionary is bind-once and
  bijective.  For a property with exactly one ALTID parameter and a candidate that declares
  an \<open>AltIdMatch\<close> with id \<open>k\<close>: the candidate is rejected when \<open>k\<close> is bound to another
  string, and, when \<open>k\<close> is unbound, when the observed string is already bound to some
  (hence different) id; no call changes or removes a binding, and a bijective dictionary
  stays bijective, so the dictionary is bijective after any number of properties.
  Consequently a record of two properties with the same ALTID value, each matched against
  the two expected patterns with distinct ids, makes \<open>match_vcard\<close> raise
  \<open>VCardMatchError\<close>.
\<close>

theorem altid_bind_once_bijective:
  "(altid_params_of vprop = [p] \<and> pm_alt_id pm = Some k \<and>
    PropMatch_match pm vprop g a = (ok, g', a') \<longrightarrow>
      (\<forall>bound. map_of a (altid_id k) = Some bound \<and> bound \<noteq> param_value p \<longrightarrow> \<not> ok \<and> a' = a) \<and>
      (map_of a (altid_id k) = None \<and> param_value p \<in> snd ` set a \<longrightarrow> \<not> ok \<and> a' = a) \<and>
      (\<forall>k' x. map_of a k' = Some x \<longrightarrow> map_of a' k' = Some x) \<and>
      (bijective_table a \<longrightarrow> bijective_table a'))
   \<and> bijective_table (altid_by_id (match_props props
         \<lparr>matches_by_name = T, group_by_id = [], altid_by_id = [], match_errors = []\<rparr>))
   \<and> (parse vcard = Inr [b, qa, qb, e] \<and> prop_name b = ''BEGIN'' \<and> prop_name e = ''END'' \<and>
       altid_params_of qa = [xa] \<and> altid_params_of qb = [xb] \<and> param_value xa = param_value xb \<and>
       pm_alt_id pma = Some ka \<and> pm_alt_id pmb = Some kb \<and> altid_id ka \<noteq> altid_id kb \<and>
       prop_name qa \<in> {pm_name pma, pm_name pmb} \<and> prop_name qb \<in> {pm_name pma, pm_name pmb}
       \<longrightarrow> (\<exists>errors. errors \<noteq> [] \<and>
              match_vcard vcard [pma, pmb] defaults = Inl (VCardMatchError errors)))"
proof (intro conjI impI allI)
  fix bound
  assume h: "altid_params_of vprop = [p] \<and> pm_alt_id pm = Some k \<and>
             PropMatch_match pm vprop g a = (ok, g', a')"
    and b: "map_of a (altid_id k) = Some bound \<and> bound \<noteq> param_value p"
  have "match_altid (pm_alt_id pm) (altid_params_of vprop) a = (False, a)"
    using h b by (simp add: match_altid_rule_b)
  from PropMatch_match_altid_reject [OF this, of g] h show "\<not> ok" and "a' = a" by simp_all
next
  assume h: "altid_params_of vprop = [p] \<and> pm_alt_id pm = Some k \<and>
             PropMatch_match pm vprop g a = (ok, g', a')"
    and c: "map_of a (altid_id k) = None \<and> param_value p \<in> snd ` set a"
  have "match_altid (pm_alt_id pm) (altid_params_of vprop) a = (False, a)"
    using h c by (simp add: match_altid_rule_c)
  from PropMatch_match_altid_reject [OF this, of g] h show "\<not> ok" and "a' = a" by simp_all
next
  fix k' x
  assume "altid_params_of vprop = [p] \<and> pm_alt_id pm = Some k \<and>
          PropMatch_match pm vprop g a = (ok, g', a')" and "map_of a k' = Some x"
  thus "map_of a' k' = Some x" using PropMatch_match_mono by blast
next
  assume "altid_params_of vprop = [p] \<and> pm_alt_id pm = Some k \<and>
          PropMatch_match pm vprop g a = (ok, g', a')" and "bijective_table a"
  thus "bijective_table a'" using PropMatch_match_bij by blast
next
  show "bijective_table (altid_by_id (match_props props
         \<lparr>matches_by_name = T, group_by_id = [], altid_by_id = [], match_errors = []\<rparr>))"
    by (rule match_props_bij) (simp add: bijective_table_def)
next
  assume "parse vcard = Inr [b, qa, qb, e] \<and> prop_name b = ''BEGIN'' \<and> prop_name e = ''END'' \<and>
       altid_params_of qa = [xa] \<and> altid_params_of qb = [xb] \<and> param_value xa = param_value xb \<and>
       pm_alt_id pma = Some ka \<and> pm_alt_id pmb = Some kb \<and> altid_id ka \<noteq> altid_id kb \<and>
       prop_name qa \<in> {pm_name pma, pm_name pmb} \<and> prop_name qb \<in> {pm_name pma, pm_name pmb}"
  thus "\<exists>errors. errors \<noteq> [] \<and>
              match_vcard vcard [pma, pmb] defaults = Inl (VCardMatchError errors)"
    using same_altid_run_fails by blast
qed

theorem altid_bind_once_bijective_witness:
  "\<not> fst (PropMatch_match
       \<lparr>pm_name = ''TEL'', pm_value = StrValue ''b'', pm_params = [], pm_mandatory = True,
        pm_alt_id = Some \<lparr>altid_id = ''k2'', altid_mandatory = True\<rparr>, pm_group = None\<rparr>
       \<lparr>prop_group = None, prop_name = ''TEL'',
        prop_params = [\<lparr>param_name = ''ALTID'', param_value = ''1''\<rparr>], prop_value = ''b''\<rparr>
       [] [(''k1'', ''1'')])
   \<and> (\<exists>errors. errors \<noteq> [] \<and>
        match_vcard (''BEGIN:VCARD'' @ crlf @ ''TEL;ALTID=1:a'' @ crlf @ ''TEL;ALTID=1:b'' @ crlf
                     @ ''END:VCARD'' @ crlf)
          [\<lparr>pm_name = ''TEL'', pm_value = StrValue ''a'', pm_params = [], pm_mandatory = True,
            pm_alt_id = Some \<lparr>altid_id = ''k1'', altid_mandatory = True\<rparr>, pm_group = None\<rparr>,
           \<lparr>pm_name = ''TEL'', pm_value = StrValue ''b'', pm_params = [], pm_mandatory = True,
            pm_alt_id = Some \<lparr>altid_id = ''k2'', altid_mandatory = True\<rparr>, pm_group = None\<rparr>]
          default_matches = Inl (VCardMatchError errors))"
proof
  let ?pm2 = "\<lparr>pm_name = ''TEL'', pm_value = StrValue ''b'', pm_params = [], pm_mandatory = True,
        pm_alt_id = Some \<lparr>altid_id = ''k2'', altid_mandatory = True\<rparr>, pm_group = None\<rparr>"
  let ?pm1 = "\<lparr>pm_name = ''TEL'', pm_value = StrValue ''a'', pm_params = [], pm_mandatory = True,
        pm_alt_id = Some \<lparr>altid_id = ''k1'', altid_mandatory = True\<rparr>, pm_group = None\<rparr>"
  let ?x = "\<lparr>param_name = ''ALTID'', param_value = ''1''\<rparr>"
  let ?q1 = "\<lparr>prop_group = None, prop_name = ''TEL'', prop_params = [?x], prop_value = ''a''\<rparr>"
  let ?q2 = "\<lparr>prop_group = None, prop_name = ''TEL'', prop_params = [?x], prop_value = ''b''\<rparr>"
  let ?b = "\<lparr>prop_group = None, prop_name = ''BEGIN'', prop_params = [], prop_value = ''VCARD''\<rparr>"
  let ?e = "\<lparr>prop_group = None, prop_name = ''END'', prop_params = [], prop_value = ''VCARD''\<rparr>"
  let ?vcard = "''BEGIN:VCARD'' @ crlf @ ''TEL;ALTID=1:a'' @ crlf @ ''TEL;ALTID=1:b'' @ crlf
                     @ ''END:VCARD'' @ crlf"
  let ?r = "PropMatch_match ?pm2 ?q2 [] [(''k1'', ''1'')]"
  note inst = altid_bind_once_bijective
    [where vprop = "?q2" and p = "?x" and pm = "?pm2"
       and k = "\<lparr>altid_id = ''k2'', altid_mandatory = True\<rparr>"
       and g = "[]" and a = "[(''k1'', ''1'')]" and ok = "fst ?r" and g' = "fst (snd ?r)"
       and a' = "snd (snd ?r)"
       and vcard = "?vcard" and b = "?b" and qa = "?q1" and qb = "?q2" and e = "?e"
       and xa = "?x" and xb = "?x" and pma = "?pm1" and pmb = "?pm2"
       and ka = "\<lparr>altid_id = ''k1'', altid_mandatory = True\<rparr>"
       and kb = "\<lparr>altid_id = ''k2'', altid_mandatory = True\<rparr>"
       and defaults = default_matches]
  have one: "altid_params_of ?q2 = [?x]" "altid_params_of ?q1 = [?x]"
    by (simp_all add: altid_params_of_def)
  show "\<not> fst ?r" using inst one by simp
  have p: "parse ?vcard = Inr [?b, ?q1, ?q2, ?e]"
    by (simp add: parse_def char_defs fromstr_def namechar_def parse_tail_def upper_def
          upper_char_def Let_def match_param_def match_param_value_def)
  show "\<exists>errors. errors \<noteq> [] \<and>
          match_vcard ?vcard [?pm1, ?pm2] default_matches = Inl (VCardMatchError errors)"
    using inst one p by simp
qed

section \<open>Properties of the card engine\<close>

subsection \<open>Patch paths\<close>

lemma split_slash_plain: "CHR ''/'' \<notin> set s \<Longrightarrow> split_slash cur s = [cur @ s]"
  by (induction s arbitrary: cur) auto

lemma split_slash_append:
  "CHR ''/'' \<notin> set s \<Longrightarrow> split_slash cur (s @ CHR ''/'' # t) = (cur @ s) # split_slash [] t"
  by (induction s arbitrary: cur) auto

lemma split_join_slash:
  "segs \<noteq> [] \<Longrightarrow> \<forall>s\<in>set segs. CHR ''/'' \<notin> set s \<Longrightarrow> split_slash [] (join_slash segs) = segs"
proof (induction segs rule: join_slash.induct)
  case 1
  then show ?case by simp
next
  case (2 s)
  then show ?case by (simp add: split_slash_plain)
next
  case (3 s t ss)
  then show ?case by (simp add: split_slash_append)
qed

lemma update_absent: "map_of m k = None \<Longrightarrow> AList.update k v m = m @ [(k, v)]"
  by (induction m) (auto split: if_splits)

text \<open>
  Claim C4 (amended).  The patch applier never decodes \<open>~1\<close> or \<open>~0\<close>: for every path, with
  or without the first segment \<open>localizations\<close>, the segments are the pieces of the key between
  the slashes, as written, and the key that a patch creates is its last segment as written.
\<close>

theorem patch_segments_raw:
  "(segs \<noteq> [] \<and> (\<forall>s\<in>set segs. CHR ''/'' \<notin> set s) \<longrightarrow>
      split_slash [] (join_slash segs) = segs)
   \<and> (CHR ''/'' \<notin> set key \<and> map_of m key = None \<longrightarrow>
      apply_patchobject (JObj m) (JObj [(key, val)])
        = (None, JObj (m @ [(key, val)]), JObj [(key, val)]))
   \<and> (CHR ''/'' \<notin> set k1 \<and> CHR ''/'' \<notin> set k2 \<and>
      map_of m k1 = Some (JObj sub) \<and> map_of sub k2 = None \<longrightarrow>
      fst (snd (apply_patchobject (JObj m) (JObj [(k1 @ ''/'' @ k2, val)])))
        = JObj (AList.update k1 (JObj (sub @ [(k2, val)])) m))"
proof (intro conjI impI)
  assume "segs \<noteq> [] \<and> (\<forall>s\<in>set segs. CHR ''/'' \<notin> set s)"
  thus "split_slash [] (join_slash segs) = segs" using split_join_slash by blast
next
  assume a: "CHR ''/'' \<notin> set key \<and> map_of m key = None"
  hence "AList.update key val m = m @ [(key, val)]" by (simp add: update_absent)
  with a show "apply_patchobject (JObj m) (JObj [(key, val)])
        = (None, JObj (m @ [(key, val)]), JObj [(key, val)])"
    by (simp add: apply_patchobject_def patch_view_def split_slash_plain map_add_def)
next
  assume a: "CHR ''/'' \<notin> set k1 \<and> CHR ''/'' \<notin> set k2 \<and>
      map_of m k1 = Some (JObj sub) \<and> map_of sub k2 = None"
  hence s: "split_slash [] (k1 @ CHR ''/'' # k2) = [k1, k2]"
    by (simp add: split_slash_append split_slash_plain)
  from a have "AList.update k2 val sub = sub @ [(k2, val)]" by (simp add: update_absent)
  with a s show "fst (snd (apply_patchobject (JObj m) (JObj [(k1 @ ''/'' @ k2, val)])))
        = JObj (AList.update k1 (JObj (sub @ [(k2, val)])) m)"
    by (simp add: apply_patchobject_def)
qed

theorem patch_segments_raw_witness:
  "apply_patchobject (JObj [(''a'', JInt 0)]) (JObj [(''x~0y'', JInt 1)])
     = (None, JObj [(''a'', JInt 0), (''x~0y'', JInt 1)], JObj [(''x~0y'', JInt 1)])"
  using patch_segments_raw [of "[''p'']" "''x~0y''" "[(''a'', JInt 0)]" "JInt 1" "''a''" "''b''" "[]"]
  by simp

text \<open>
  Claim C4 as stated fails: the path \<open>a~1b\<close> does not begin with \<open>localizations\<close>, and the
  key it creates is \<open>a~1b\<close>, not \<open>a/b\<close>.
\<close>

theorem patch_escape_counterexample:
  "fst (snd (apply_patchobject (JObj []) (JObj [(''a~1b'', JInt 1)]))) = JObj [(''a~1b'', JInt 1)]
   \<and> fst (snd (apply_patchobject (JObj []) (JObj [(''a~1b'', JInt 1)]))) \<noteq> JObj [(''a/b'', JInt 1)]"
  by (simp add: apply_patchobject_def)

subsection \<open>The structural differ\<close>

lemma set_only_in_a:
  "distinct (map fst a) \<Longrightarrow>
   set (only_in True a b segs) =
     {\<lparr>diff_path = encode_path (segs @ [k]), a_val = v, b_val = JNull\<rparr> | k v.
        map_of a k = Some v \<and> map_of b k = None}"
  by (auto simp: only_in_def map_of_eq_None_iff image_iff)

lemma set_only_in_b:
  "distinct (map fst b) \<Longrightarrow>
   set (only_in False b a segs) =
     {\<lparr>diff_path = encode_path (segs @ [k]), a_val = JNull, b_val = v\<rparr> | k v.
        map_of b k = Some v \<and> map_of a k = None}"
  by (auto simp: only_in_def map_of_eq_None_iff image_iff)

lemma set_diff_shared:
  "distinct (map fst a) \<Longrightarrow>
   set (diff_shared a b segs) =
     (\<Union>k \<in> fst ` set a. case (map_of a k, map_of b k) of
          (Some v, Some w) \<Rightarrow> set (diff_vals v w (segs @ [k])) | _ \<Rightarrow> {})"
proof (induction a)
  case Nil
  then show ?case by simp
next
  case (Cons kv a)
  let ?F = "\<lambda>m k. case (map_of m k, map_of b k) of
          (Some v, Some w) \<Rightarrow> set (diff_vals v w (segs @ [k])) | _ \<Rightarrow> {}"
  have notin: "fst kv \<notin> fst ` set a" and da: "distinct (map fst a)"
    using Cons.prems by (auto simp: image_iff)
  have eq: "map_of (kv # a) k = map_of a k" if "k \<in> fst ` set a" for k
    using that notin by (cases kv) auto
  have rest: "(\<Union>k \<in> fst ` set a. ?F (kv # a) k) = (\<Union>k \<in> fst ` set a. ?F a k)"
  proof (rule SUP_cong)
    fix k assume k: "k \<in> fst ` set a"
    show "?F (kv # a) k = ?F a k" by (simp only: eq [OF k])
  qed simp
  have hd: "?F (kv # a) (fst kv)
      = (case map_of b (fst kv) of None \<Rightarrow> {}
         | Some v \<Rightarrow> set (diff_vals (snd kv) v (segs @ [fst kv])))"
    by (cases kv) (simp split: option.splits)
  have "set (diff_shared (kv # a) b segs)
      = (case map_of b (fst kv) of None \<Rightarrow> {}
         | Some v \<Rightarrow> set (diff_vals (snd kv) v (segs @ [fst kv])))
        \<union> set (diff_shared a b segs)"
    by (simp split: option.splits)
  also have "\<dots> = ?F (kv # a) (fst kv) \<union> (\<Union>k \<in> fst ` set a. ?F a k)"
    by (simp only: hd Cons.IH [OF da])
  also have "\<dots> = ?F (kv # a) (fst kv) \<union> (\<Union>k \<in> fst ` set a. ?F (kv # a) k)"
    by (simp only: rest)
  also have "\<dots> = (\<Union>k \<in> fst ` set (kv # a). ?F (kv # a) k)"
    by simp
  finally show ?case .
qed

text \<open>
  Claim C6.  For two dictionaries the differ reports, for every key only in \<open>a\<close> (want), a
  difference with only the expected side set; for every key only in \<open>b\<close> (have), one with
  only the actual side set; and for every shared key what the comparison of the two values
  reports, where two dictionaries are compared by \<open>diff_objs\<close> and two lists by \<open>diff_list\<close>.
  For two lists of unequal length \<open>diff_list\<close> reports exactly one difference, at the current
  path, carrying both lists.
\<close>

theorem diff_objs_spec:
  "(distinct (map fst a) \<and> distinct (map fst b) \<longrightarrow>
     set (diff_objs a b segs) =
       {\<lparr>diff_path = encode_path (segs @ [k]), a_val = v, b_val = JNull\<rparr> | k v.
          map_of a k = Some v \<and> map_of b k = None}
     \<union> {\<lparr>diff_path = encode_path (segs @ [k]), a_val = JNull, b_val = v\<rparr> | k v.
          map_of b k = Some v \<and> map_of a k = None}
     \<union> (\<Union>k \<in> fst ` set a. case (map_of a k, map_of b k) of
          (Some v, Some w) \<Rightarrow> set (diff_vals v w (segs @ [k])) | _ \<Rightarrow> {}))
   \<and> diff_vals (JObj a) (JObj b) segs = diff_objs a b segs
   \<and> diff_vals (JList xs) (JList ys) segs = diff_list xs ys segs
   \<and> (length xs \<noteq> length ys \<longrightarrow>
        diff_list xs ys segs
          = [\<lparr>diff_path = encode_path segs, a_val = JList xs, b_val = JList ys\<rparr>])"
proof (intro conjI impI)
  assume d: "distinct (map fst a) \<and> distinct (map fst b)"
  have "set (diff_objs a b segs)
      = set (only_in True a b segs) \<union> set (only_in False b a segs) \<union> set (diff_shared a b segs)"
    by (simp add: diff_objs_def Un_assoc)
  also have "\<dots> = {\<lparr>diff_path = encode_path (segs @ [k]), a_val = v, b_val = JNull\<rparr> | k v.
          map_of a k = Some v \<and> map_of b k = None}
     \<union> {\<lparr>diff_path = encode_path (segs @ [k]), a_val = JNull, b_val = v\<rparr> | k v.
          map_of b k = Some v \<and> map_of a k = None}
     \<union> (\<Union>k \<in> fst ` set a. case (map_of a k, map_of b k) of
          (Some v, Some w) \<Rightarrow> set (diff_vals v w (segs @ [k])) | _ \<Rightarrow> {})"
    using d by (simp only: set_only_in_a set_only_in_b set_diff_shared)
  finally show "set (diff_objs a b segs) = {\<lparr>diff_path = encode_path (segs @ [k]), a_val = v, b_val = JNull\<rparr> | k v.
          map_of a k = Some v \<and> map_of b k = None}
     \<union> {\<lparr>diff_path = encode_path (segs @ [k]), a_val = JNull, b_val = v\<rparr> | k v.
          map_of b k = Some v \<and> map_of a k = None}
     \<union> (\<Union>k \<in> fst ` set a. case (map_of a k, map_of b k) of
          (Some v, Some w) \<Rightarrow> set (diff_vals v w (segs @ [k])) | _ \<Rightarrow> {})" .
next
  show "diff_vals (JObj a) (JObj b) segs = diff_objs a b segs" by (simp add: diff_objs_def)
next
  show "diff_vals (JList xs) (JList ys) segs = diff_list xs ys segs" by (simp add: diff_list_def)
next
  assume "length xs \<noteq> length ys"
  thus "diff_list xs ys segs
          = [\<lparr>diff_path = encode_path segs, a_val = JList xs, b_val = JList ys\<rparr>]"
    by (simp add: diff_list_def)
qed


theorem diff_objs_spec_witness:
  "diff_objs [(''a'', JInt 1), (''b'', JInt 2)] [(''a'', JInt 1), (''c'', JInt 3)] []
     = [\<lparr>diff_path = ''b'', a_val = JInt 2, b_val = JNull\<rparr>,
        \<lparr>diff_path = ''c'', a_val = JNull, b_val = JInt 3\<rparr>]
   \<and> diff_list [JInt 1] [JInt 1, JInt 2] [''a'']
     = [\<lparr>diff_path = ''a'', a_val = JList [JInt 1], b_val = JList [JInt 1, JInt 2]\<rparr>]"
proof
  show "diff_objs [(''a'', JInt 1), (''b'', JInt 2)] [(''a'', JInt 1), (''c'', JInt 3)] []
     = [\<lparr>diff_path = ''b'', a_val = JInt 2, b_val = JNull\<rparr>,
        \<lparr>diff_path = ''c'', a_val = JNull, b_val = JInt 3\<rparr>]"
    by (simp add: diff_objs_def only_in_def encode_path_def replace_char_def)
  have "length [JInt 1] \<noteq> length [JInt 1, JInt 2]" by simp
  with diff_objs_spec [of "[]" "[]" "[''a'']" "[JInt 1]" "[JInt 1, JInt 2]"]
  have "diff_list [JInt 1] [JInt 1, JInt 2] [''a'']
     = [\<lparr>diff_path = encode_path [''a''], a_val = JList [JInt 1], b_val = JList [JInt 1, JInt 2]\<rparr>]"
    by blast
  thus "diff_list [JInt 1] [JInt 1, JInt 2] [''a'']
     = [\<lparr>diff_path = ''a'', a_val = JList [JInt 1], b_val = JList [JInt 1, JInt 2]\<rparr>]"
    by (simp add: encode_path_def replace_char_def)
qed

end
